theory Spec2Isabelle
  imports Complex_Main
begin

section \<open>Python values, exceptions and the profiled function\<close>

text \<open>
  The notebooks are Python scripts. Exceptions are values of \<open>exn\<close>, and a computation
  that may raise returns \<open>exn + 'a\<close> (\<open>Inl\<close> the exception). Durations and array
  elements are Python floats; they are embedded as rationals, so \<open>+\<close>, \<open>/\<close>,
  \<open>min\<close> and \<open>max\<close> below are the exact operations (rounding is not modelled).
\<close>

datatype exn =
    IndexError | TypeError | ValueError | ZeroDivisionError | OSError | RuntimeError
  | OtherError string

text \<open>One element yielded by the data generator: \<open>(s1_val, s2_val, magn_vals, phas_vals)\<close>.\<close>

type_synonym datapoint = "rat \<times> rat \<times> rat list \<times> rat list"

datatype pyval = PyNone | PyNum rat | PyTuple "pyval list" | PyDataSet "datapoint list"

text \<open>
  A profiled function \<open>sut\<close> is called many times and answers differently each time (it
  measures time). It is embedded as the sequence of its outcomes: \<open>sut k\<close> is what the
  \<open>k\<close>-th call (counted from 0) does, either raising or returning a value. The number of
  calls made so far is the state threaded through the timing loops. The arguments of the
  wrapper, which \<open>inner\<close> copies and passes on at every call, are part of \<open>sut\<close>.
\<close>

type_synonym sut = "nat \<Rightarrow> exn + pyval"

text \<open>A clock such as \<open>time.perf_counter\<close>: its successive readings.\<close>

type_synonym timer = "nat \<Rightarrow> rat"

section \<open>The \<open>time_it\<close> decorator\<close>

text \<open>
  \<^verbatim>\<open>returned_vals[0] if isinstance(returned_vals, tuple) else returned_vals\<close>:
  indexing an empty tuple raises IndexError.
\<close>

fun first_return_value :: "pyval \<Rightarrow> exn + pyval" where
  "first_return_value (PyTuple []) = Inl IndexError"
| "first_return_value (PyTuple (x # xs)) = Inr x"
| "first_return_value v = Inr v"

text \<open>\<^verbatim>\<open>total_time += x\<close>: adding anything but a number to a number raises TypeError.\<close>

fun add_time :: "rat \<Rightarrow> pyval \<Rightarrow> exn + rat" where
  "add_time total_time (PyNum d) = Inr (total_time + d)"
| "add_time total_time v = Inl TypeError"

text \<open>
  The body of \<open>inner\<close>: \<^verbatim>\<open>for _ in _it\<close> with the number of remaining iterations,
  the running \<open>total_time\<close> and the number \<open>k\<close> of calls of \<open>sut\<close> made so far.
  The argument \<open>tmr\<close> (\<open>_timer\<close> in the source) is received and never read.
\<close>

fun inner_loop :: "sut \<Rightarrow> nat \<Rightarrow> timer \<Rightarrow> rat \<Rightarrow> nat \<Rightarrow> (exn + rat) \<times> nat" where
  "inner_loop sut 0 tmr total_time k = (Inr total_time, k)"
| "inner_loop sut (Suc n) tmr total_time k =
     (case sut k of
        Inl e \<Rightarrow> (Inl e, Suc k)
      | Inr returned_vals \<Rightarrow>
          (case first_return_value returned_vals of
             Inl e \<Rightarrow> (Inl e, Suc k)
           | Inr x \<Rightarrow>
               (case add_time total_time x of
                  Inl e \<Rightarrow> (Inl e, Suc k)
                | Inr total_time' \<Rightarrow> inner_loop sut n tmr total_time' (Suc k))))"

definition inner :: "sut \<Rightarrow> nat \<Rightarrow> timer \<Rightarrow> nat \<Rightarrow> (exn + rat) \<times> nat" where
  "inner sut it tmr k = inner_loop sut it tmr 0 k"

text \<open>
  \<open>timeit.Timer.timeit(number)\<close> of the standard library:
  \<^verbatim>\<open>it = itertools.repeat(None, number); timing = self.inner(it, self.timer)\<close>.
  The wrapper has replaced \<open>self.inner\<close> by the function above.
\<close>

definition timeit :: "sut \<Rightarrow> timer \<Rightarrow> nat \<Rightarrow> nat \<Rightarrow> (exn + rat) \<times> nat" where
  "timeit sut tm number k = inner sut number tm k"

text \<open>
  \<open>timeit.Timer.repeat(repeat, number)\<close>:
  \<^verbatim>\<open>r = []; for i in range(repeat): t = self.timeit(number); r.append(t)\<close>.
\<close>

fun repeat_loop :: "sut \<Rightarrow> timer \<Rightarrow> nat \<Rightarrow> nat \<Rightarrow> rat list \<Rightarrow> nat \<Rightarrow> (exn + rat list) \<times> nat" where
  "repeat_loop sut tm 0 number r k = (Inr r, k)"
| "repeat_loop sut tm (Suc i) number r k =
     (case timeit sut tm number k of
        (Inl e, k') \<Rightarrow> (Inl e, k')
      | (Inr t, k') \<Rightarrow> repeat_loop sut tm i number (r @ [t]) k')"

definition repeat_timer :: "sut \<Rightarrow> timer \<Rightarrow> nat \<Rightarrow> nat \<Rightarrow> nat \<Rightarrow> (exn + rat list) \<times> nat" where
  "repeat_timer sut tm rep number k = repeat_loop sut tm rep number [] k"

text \<open>
  \<open>timeit.Timer.autorange()\<close>: \<^verbatim>\<open>i = 1; while True: for j in 1, 2, 5: ...; i *= 10\<close>,
  returning \<open>(number, time_taken)\<close> at the first trial that takes at least 0.2 seconds.
  \<open>js\<close> is what is left of \<open>(1, 2, 5)\<close> in the current round. The loop need not end,
  so the result is optional.
\<close>

partial_function (option) autorange ::
  "sut \<Rightarrow> timer \<Rightarrow> nat \<Rightarrow> nat list \<Rightarrow> nat \<Rightarrow> ((exn + nat \<times> rat) \<times> nat) option" where
  "autorange sut tm i js k =
     (case js of
        [] \<Rightarrow> autorange sut tm (i * 10) [1, 2, 5] k
      | j # js' \<Rightarrow>
          (case timeit sut tm (i * j) k of
             (Inl e, k') \<Rightarrow> Some (Inl e, k')
           | (Inr time_taken, k') \<Rightarrow>
               if time_taken \<ge> 2 / 10 then Some (Inr (i * j, time_taken), k')
               else autorange sut tm i js' k'))"

record TimeitResult =
  loops :: nat
  repeat :: nat
  best :: rat
  worst :: rat
  all_runs :: "rat list"
  compile_time :: rat
  precision :: nat

text \<open>What the wrapper prints: a traceback (\<open>t.print_exc()\<close>) or the result.\<close>

datatype printed = PrintExc exn | PrintResult TimeitResult

text \<open>
  The \<^verbatim>\<open>try\<close> block of \<open>wrapper\<close>: \<open>number_\<close> is the given number, or the one
  \<open>autorange\<close> finds when \<open>number is None\<close> (the time that comes with it is dropped,
  so a given number is paired with 0 here); then \<open>t.repeat(repeat, number_)\<close>.
\<close>

definition profiling ::
  "nat option \<Rightarrow> nat \<Rightarrow> sut \<Rightarrow> timer \<Rightarrow> nat \<Rightarrow> ((exn + nat \<times> rat list) \<times> nat) option" where
  "profiling number rep sut tm k =
     (case (case number of
              None \<Rightarrow> autorange sut tm 1 [1, 2, 5] k
            | Some n \<Rightarrow> Some (Inr (n, 0), k)) of
        None \<Rightarrow> None
      | Some (Inl e, k') \<Rightarrow> Some (Inl e, k')
      | Some (Inr (number_, _), k') \<Rightarrow>
          (case repeat_timer sut tm rep number_ k' of
             (Inl e, k'') \<Rightarrow> Some (Inl e, k'')
           | (Inr runs, k'') \<Rightarrow> Some (Inr (number_, runs), k'')))"

text \<open>
  \<open>wrapper\<close>: an exception inside the \<^verbatim>\<open>try\<close> block is printed and re-raised
  (\<^verbatim>\<open>except: t.print_exc(); raise\<close>). After the block, \<open>min\<close> of an empty list raises
  ValueError and division by \<open>number_ = 0\<close> raises ZeroDivisionError, neither inside the
  \<^verbatim>\<open>try\<close>. The result is the outcome, what was printed, and the number of calls of
  \<open>sut\<close> made.
\<close>

definition wrapper ::
  "nat option \<Rightarrow> nat \<Rightarrow> sut \<Rightarrow> timer \<Rightarrow> nat \<Rightarrow> ((exn + TimeitResult) \<times> printed list \<times> nat) option" where
  "wrapper number rep sut tm k =
     (case profiling number rep sut tm k of
        None \<Rightarrow> None
      | Some (Inl e, k') \<Rightarrow> Some (Inl e, [PrintExc e], k')
      | Some (Inr (number_, runs), k') \<Rightarrow>
          if runs = [] then Some (Inl ValueError, [], k')
          else if number_ = 0 then Some (Inl ZeroDivisionError, [], k')
          else
            let timeit_result =
              \<lparr>loops = number_, repeat = rep,
               best = Min (set runs) / of_nat number_,
               worst = Max (set runs) / of_nat number_,
               all_runs = runs, compile_time = 0, precision = 3\<rparr>
            in Some (Inr timeit_result, [PrintResult timeit_result], k'))"

text \<open>\<open>time_it(number, repeat)(sut)\<close> is the wrapper; the profiled function starts fresh.\<close>

definition time_it ::
  "nat option \<Rightarrow> nat \<Rightarrow> sut \<Rightarrow> timer \<Rightarrow> ((exn + TimeitResult) \<times> printed list \<times> nat) option" where
  "time_it number rep sut tm = wrapper number rep sut tm 0"

subsection \<open>What the decorator is meant to compute\<close>

text \<open>
  The duration a returned value reports: the first element of the returned tuple, or the
  sole returned value when it is not a tuple.
\<close>

fun reported_duration :: "pyval \<Rightarrow> rat option" where
  "reported_duration (PyTuple (PyNum d # xs)) = Some d"
| "reported_duration (PyNum d) = Some d"
| "reported_duration v = None"

text \<open>
  With \<open>d i\<close> the duration reported by call \<open>i\<close>: the total of each of the \<open>rep\<close>
  timing runs of \<open>number\<close> executions, and the result built from these totals.
\<close>

definition run_totals :: "(nat \<Rightarrow> rat) \<Rightarrow> nat \<Rightarrow> nat \<Rightarrow> rat list" where
  "run_totals d number rep = map (\<lambda>j. sum d {j * number..<j * number + number}) [0..<rep]"

definition expected_result :: "(nat \<Rightarrow> rat) \<Rightarrow> nat \<Rightarrow> nat \<Rightarrow> TimeitResult" where
  "expected_result d number rep =
     \<lparr>loops = number, repeat = rep,
      best = Min (set (run_totals d number rep)) / of_nat number,
      worst = Max (set (run_totals d number rep)) / of_nat number,
      all_runs = run_totals d number rep, compile_time = 0, precision = 3\<rparr>"

text \<open>
  When \<open>number\<close> is \<open>None\<close>, \<open>autorange\<close> makes trials of 1, 2, 5, 10, 20, 50, ...
  executions until one takes at least 0.2 seconds. Trial \<open>t\<close> (counted from 0) has
  \<open>trial_number t\<close> executions; when all trials before it were made in full it starts
  at call \<open>trial_start t\<close>, and the durations \<open>d\<close> reported in it add up to
  \<open>trial_total d t\<close>.
\<close>

definition trial_number :: "nat \<Rightarrow> nat" where
  "trial_number t = 10 ^ (t div 3) * ([1, 2, 5] ! (t mod 3))"

fun trial_start :: "nat \<Rightarrow> nat" where
  "trial_start 0 = 0"
| "trial_start (Suc t) = trial_start t + trial_number t"

definition trial_total :: "(nat \<Rightarrow> rat) \<Rightarrow> nat \<Rightarrow> rat" where
  "trial_total d t = sum d {trial_start t..<trial_start t + trial_number t}"

text \<open>
  Call \<open>m\<close> of the profiled function belongs to the profiling when the calls before it
  report the durations \<open>d\<close>: with a given \<open>number\<close> it is one of the
  \<open>repeat * number\<close> calls of the timing runs; with \<open>number = None\<close> it lies in a
  trial \<open>T\<close> that \<open>autorange\<close> reaches (all trials before \<open>T\<close> stay below 0.2
  seconds), or in one of the \<open>repeat\<close> timing runs of \<open>trial_number T\<close> executions that
  follow the first trial \<open>T\<close> of at least 0.2 seconds.
\<close>

definition call_is_made :: "nat option \<Rightarrow> nat \<Rightarrow> (nat \<Rightarrow> rat) \<Rightarrow> nat \<Rightarrow> bool" where
  "call_is_made number rep d m =
     (case number of
        Some n \<Rightarrow> m < rep * n
      | None \<Rightarrow>
          (\<exists>T \<in> {..m}. (\<forall>t \<in> {..<T}. trial_total d t < 2 / 10) \<and> trial_start T \<le> m \<and>
             (m < trial_start (Suc T) \<or>
              (2 / 10 \<le> trial_total d T \<and> m < trial_start (Suc T) + rep * trial_number T))))"

text \<open>\<open>autorange\<close> as it is when it starts trial \<open>t\<close>, all earlier trials made in full.\<close>

definition at_trial :: "sut \<Rightarrow> timer \<Rightarrow> nat \<Rightarrow> ((exn + nat \<times> rat) \<times> nat) option" where
  "at_trial sut tm t = autorange sut tm (10 ^ (t div 3)) (drop (t mod 3) [1, 2, 5]) (trial_start t)"

section \<open>The simulated measurement\<close>

text \<open>
  \<open>numpy.random.rand(n)\<close> draws \<open>n\<close> numbers. The random source is the sequence
  \<open>rnd\<close> of the numbers it will draw; the state is how many have been drawn.
\<close>

definition rand :: "(nat \<Rightarrow> rat) \<Rightarrow> nat \<Rightarrow> nat \<Rightarrow> rat list \<times> nat" where
  "rand rnd n k = (map rnd [k..<k + n], k + n)"

text \<open>
  \<open>numpy.meshgrid(x, y)\<close> with the default \<open>indexing='xy'\<close>: two arrays of
  \<open>len(y)\<close> rows and \<open>len(x)\<close> columns, the first repeating \<open>x\<close> in every row, the
  second holding \<open>y[i]\<close> throughout row \<open>i\<close>. \<open>numpy.reshape(a, -1)\<close> lays the rows
  of \<open>a\<close> one after the other.
\<close>

definition meshgrid :: "rat list \<Rightarrow> rat list \<Rightarrow> rat list list \<times> rat list list" where
  "meshgrid x y = (map (\<lambda>yi. x) y, map (\<lambda>yi. map (\<lambda>xj. yi) x) y)"

definition reshape_flat :: "rat list list \<Rightarrow> rat list" where
  "reshape_flat a = concat a"

text \<open>
  \<open>produce_measurement_data\<close>: the two nested \<^verbatim>\<open>for ... in range(n_pts_per_param)\<close>
  loops, each as a recursion over the values still to visit. The generator is embedded as
  the list of the tuples it yields, with the state of the random source after it.
\<close>

fun s2_loop :: "(nat \<Rightarrow> rat) \<Rightarrow> nat \<Rightarrow> nat \<Rightarrow> nat list \<Rightarrow> nat \<Rightarrow> datapoint list \<times> nat" where
  "s2_loop rnd n_pts_per_param s1_val [] k = ([], k)"
| "s2_loop rnd n_pts_per_param s1_val (s2_val # s2_vals) k =
     (let (x, k1) = rand rnd n_pts_per_param k;
          (y, k2) = rand rnd n_pts_per_param k1;
          (magn_vals, phas_vals) = meshgrid x y;
          magn_vals = reshape_flat magn_vals;
          phas_vals = reshape_flat phas_vals;
          (rest, k3) = s2_loop rnd n_pts_per_param s1_val s2_vals k2
      in ((of_nat s1_val, of_nat s2_val, magn_vals, phas_vals) # rest, k3))"

fun s1_loop :: "(nat \<Rightarrow> rat) \<Rightarrow> nat \<Rightarrow> nat list \<Rightarrow> nat \<Rightarrow> datapoint list \<times> nat" where
  "s1_loop rnd n_pts_per_param [] k = ([], k)"
| "s1_loop rnd n_pts_per_param (s1_val # s1_vals) k =
     (let (ys, k1) = s2_loop rnd n_pts_per_param s1_val [0..<n_pts_per_param] k;
          (rest, k2) = s1_loop rnd n_pts_per_param s1_vals k1
      in (ys @ rest, k2))"

definition produce_measurement_data :: "nat \<Rightarrow> (nat \<Rightarrow> rat) \<Rightarrow> nat \<Rightarrow> datapoint list \<times> nat" where
  "produce_measurement_data n_pts_per_param rnd k =
     s1_loop rnd n_pts_per_param [0..<n_pts_per_param] k"

definition make_data_producer :: "nat \<Rightarrow> (nat \<Rightarrow> rat) \<Rightarrow> nat \<Rightarrow> datapoint list \<times> nat" where
  "make_data_producer n_pts_per_param = produce_measurement_data n_pts_per_param"

section \<open>Arrays, files and the two incremental writers\<close>

text \<open>
  The right-hand side of a slice assignment is a scalar or a one-dimensional array. By
  the broadcasting rules of NumPy, which h5py follows, a scalar or an array of length 1
  fills a slice of any length and a longer array must have the length of the slice.
\<close>

datatype rhs = Scalar rat | Array "rat list"

fun broadcast_to :: "rhs \<Rightarrow> nat \<Rightarrow> rat list option" where
  "broadcast_to (Scalar x) len = Some (replicate len x)"
| "broadcast_to (Array [x]) len = Some (replicate len x)"
| "broadcast_to (Array xs) len = (if length xs = len then Some xs else None)"

text \<open>The Python slice \<open>lo:hi\<close> of a dimension of length \<open>c\<close>: both ends are clipped.\<close>

definition slice_bounds :: "nat \<Rightarrow> nat \<Rightarrow> nat \<Rightarrow> nat \<times> nat" where
  "slice_bounds lo hi c = (min lo c, max (min lo c) (min hi c))"

subsection \<open>An HDF5 dataset (h5py)\<close>

text \<open>
  A two-dimensional dataset: its shape, its maximal shape (\<open>None\<close>: unlimited) and its
  rows. \<open>Dataset.resize\<close> keeps every element at its coordinates and fills the new
  elements with the fill value 0; it fails beyond the maximal shape.
\<close>

record h5_dataset =
  ds_shape :: "nat \<times> nat"
  ds_maxshape :: "nat \<times> nat option"
  ds_rows :: "rat list list"

definition create_dataset :: "nat \<times> nat \<Rightarrow> nat \<times> nat option \<Rightarrow> h5_dataset" where
  "create_dataset shp maxshp =
     \<lparr>ds_shape = shp, ds_maxshape = maxshp, ds_rows = replicate (fst shp) (replicate (snd shp) 0)\<rparr>"

definition h5_resize :: "h5_dataset \<Rightarrow> nat \<times> nat \<Rightarrow> exn + h5_dataset" where
  "h5_resize ds new_shape =
     (let (r, c) = ds_shape ds; (r', c') = new_shape; (max_r, max_c) = ds_maxshape ds in
      if r' > max_r \<or> (case max_c of None \<Rightarrow> False | Some m \<Rightarrow> c' > m) then Inl ValueError
      else Inr (ds\<lparr>ds_shape := (r', c'),
                   ds_rows := map (\<lambda>i. if i < r then take c' (ds_rows ds ! i @ replicate (c' - c) 0)
                                          else replicate c' 0) [0..<r']\<rparr>))"

text \<open>\<^verbatim>\<open>ds[i, lo:hi] = v\<close>\<close>

definition h5_setitem :: "h5_dataset \<Rightarrow> nat \<Rightarrow> nat \<Rightarrow> nat \<Rightarrow> rhs \<Rightarrow> exn + h5_dataset" where
  "h5_setitem ds i lo hi v =
     (let (r, c) = ds_shape ds; (start, stop) = slice_bounds lo hi c in
      if i \<ge> r then Inl ValueError
      else case broadcast_to v (stop - start) of
             None \<Rightarrow> Inl TypeError
           | Some xs \<Rightarrow>
               Inr (ds\<lparr>ds_rows := (ds_rows ds)
                      [i := take start (ds_rows ds ! i) @ xs @ drop stop (ds_rows ds ! i)]\<rparr>))"

subsection \<open>A NumPy array\<close>

text \<open>
  A two-dimensional array in C order: its shape and its buffer, row after row. The flag
  \<open>nd_owndata\<close> is NumPy's OWNDATA; \<open>nd_mmap\<close> names the file whose bytes are the
  buffer, for an array that \<open>numpy.memmap\<close> created.

  \<open>ndarray.resize\<close> works in place and only on an array that owns its data: the buffer
  is reallocated to the new size, its elements keep their places in memory order and the
  new tail is filled with zeros (for a buffer \<open>[[0, 1], [2, 3]]\<close>, \<open>resize((2, 3))\<close>
  gives \<open>[[0, 1, 2], [3, 0, 0]]\<close>).
\<close>

record ndarray =
  nd_shape :: "nat \<times> nat"
  nd_data :: "rat list"
  nd_owndata :: bool
  nd_mmap :: "string option"

definition nd_resize :: "ndarray \<Rightarrow> nat \<times> nat \<Rightarrow> exn + ndarray" where
  "nd_resize a new_shape =
     (let (r', c') = new_shape in
      if \<not> nd_owndata a then Inl ValueError
      else Inr (a\<lparr>nd_shape := (r', c'),
                  nd_data := take (r' * c') (nd_data a @ replicate (r' * c' - length (nd_data a)) 0)\<rparr>))"

text \<open>\<^verbatim>\<open>a[i, lo:hi] = v\<close>: row \<open>i\<close> starts at offset \<open>i * c\<close> of the buffer.\<close>

definition nd_setitem :: "ndarray \<Rightarrow> nat \<Rightarrow> nat \<Rightarrow> nat \<Rightarrow> rhs \<Rightarrow> exn + ndarray" where
  "nd_setitem a i lo hi v =
     (let (r, c) = nd_shape a; (start, stop) = slice_bounds lo hi c in
      if i \<ge> r then Inl IndexError
      else case broadcast_to v (stop - start) of
             None \<Rightarrow> Inl ValueError
           | Some xs \<Rightarrow>
               Inr (a\<lparr>nd_data := take (i * c + start) (nd_data a) @ xs @
                                   drop (i * c + stop) (nd_data a)\<rparr>))"

text \<open>The rows of an array, for reading it: row \<open>i\<close> is \<open>a[i, :]\<close>.\<close>

definition rows_of :: "nat \<times> nat \<Rightarrow> rat list \<Rightarrow> rat list list" where
  "rows_of shp buf = map (\<lambda>i. take (snd shp) (drop (i * snd shp) buf)) [0..<fst shp]"

definition nd_rows :: "ndarray \<Rightarrow> rat list list" where
  "nd_rows a = rows_of (nd_shape a) (nd_data a)"

subsection \<open>Files\<close>

text \<open>
  What the scripts leave on disk: an HDF5 file with its dataset \<open>results\<close>, or an
  \<open>.npy\<close> file, a header that records the shape followed by the elements. \<open>handles\<close>
  lists the names of the files that are open. \<open>can_create\<close> is the environment: the
  names under which it lets the script create a file and write it (the folder exists, the
  script has the permission, no other program holds the file).
\<close>

datatype file_content = Hdf5File h5_dataset | NpyFile "nat \<times> nat" "rat list"

record world =
  files :: "string \<Rightarrow> file_content option"
  handles :: "string list"
  can_create :: "string \<Rightarrow> bool"

text \<open>
  Opening a file for writing, as \<^verbatim>\<open>h5py.File(filename, 'w')\<close> and
  \<open>numpy.lib.format.open_memmap(filename, mode='w+')\<close> do, raises OSError for the empty
  name and for a name the environment does not let the script create.
\<close>

definition creatable :: "world \<Rightarrow> string \<Rightarrow> bool" where
  "creatable w filename \<longleftrightarrow> filename \<noteq> [] \<and> can_create w filename"

subsection \<open>\<open>save_to_hdf5\<close>\<close>

text \<open>
  One iteration of the loop over the data generator. \<open>n_cols\<close> and \<open>n_rows\<close> are the
  source's names for the two components of \<open>ds.shape\<close>. An exception leaves the dataset
  as the statements before it made it.
\<close>

definition hdf5_body :: "h5_dataset \<Rightarrow> datapoint \<Rightarrow> (exn + unit) \<times> h5_dataset" where
  "hdf5_body ds item =
     (let (s1_val, s2_val, magn_vals, phas_vals) = item;
          n_pts = length magn_vals;
          (n_cols, n_rows) = ds_shape ds
      in case h5_resize ds (n_cols, n_rows + n_pts) of
           Inl e \<Rightarrow> (Inl e, ds)
         | Inr ds1 \<Rightarrow>
       (case h5_setitem ds1 0 n_rows (n_rows + n_pts) (Scalar s1_val) of
           Inl e \<Rightarrow> (Inl e, ds1)
         | Inr ds2 \<Rightarrow>
       (case h5_setitem ds2 1 n_rows (n_rows + n_pts) (Scalar s2_val) of
           Inl e \<Rightarrow> (Inl e, ds2)
         | Inr ds3 \<Rightarrow>
       (case h5_setitem ds3 2 n_rows (n_rows + n_pts) (Array magn_vals) of
           Inl e \<Rightarrow> (Inl e, ds3)
         | Inr ds4 \<Rightarrow>
       (case h5_setitem ds4 3 n_rows (n_rows + n_pts) (Array phas_vals) of
           Inl e \<Rightarrow> (Inl e, ds4)
         | Inr ds5 \<Rightarrow> (Inr (), ds5))))))"

fun hdf5_loop :: "datapoint list \<Rightarrow> h5_dataset \<Rightarrow> (exn + unit) \<times> h5_dataset" where
  "hdf5_loop [] ds = (Inr (), ds)"
| "hdf5_loop (item # data_generator) ds =
     (case hdf5_body ds item of
        (Inl e, ds') \<Rightarrow> (Inl e, ds')
      | (Inr u, ds') \<Rightarrow> hdf5_loop data_generator ds')"

text \<open>
  \<^verbatim>\<open>with h5py.File(filename, 'w') as f\<close> creates (or truncates) the file and opens it,
  or raises OSError; leaving the block closes the file, whether the block ends or raises.
  The dataset is the content of the file. The function has no \<^verbatim>\<open>return\<close>
  statement: when the block ends it returns \<open>None\<close>.
\<close>

definition save_to_hdf5 :: "datapoint list \<Rightarrow> string \<Rightarrow> world \<Rightarrow> (exn + pyval) \<times> world" where
  "save_to_hdf5 data_generator filename w =
     (if \<not> creatable w filename then (Inl OSError, w)
      else
        let ds = create_dataset (4, 0) (4, None);
            w1 = w\<lparr>files := (files w)(filename \<mapsto> Hdf5File ds), handles := filename # handles w\<rparr>;
            (r, ds') = hdf5_loop data_generator ds;
            w2 = w1\<lparr>files := (files w1)(filename \<mapsto> Hdf5File ds'),
                     handles := remove1 filename (handles w1)\<rparr>
        in (case r of Inl e \<Rightarrow> Inl e | Inr u \<Rightarrow> Inr PyNone, w2))"

subsection \<open>\<open>save_to_npy\<close>\<close>

text \<open>
  \<open>numpy.lib.format.open_memmap(filename, mode='w+', shape=shp)\<close> writes the header of
  the file and maps its elements, or raises OSError when the file cannot be created. The
  array it returns does not own its data: its buffer is the file.
\<close>

definition memmap_array :: "string \<Rightarrow> nat \<times> nat \<Rightarrow> ndarray" where
  "memmap_array filename shp =
     \<lparr>nd_shape = shp, nd_data = replicate (fst shp * snd shp) 0,
      nd_owndata = False, nd_mmap = Some filename\<rparr>"

definition open_memmap :: "string \<Rightarrow> nat \<times> nat \<Rightarrow> world \<Rightarrow> exn + ndarray \<times> world" where
  "open_memmap filename shp w =
     (if \<not> creatable w filename then Inl OSError
      else Inr (memmap_array filename shp,
                w\<lparr>files := (files w)(filename \<mapsto> NpyFile shp (replicate (fst shp * snd shp) 0)),
                  handles := filename # handles w\<rparr>))"

text \<open>
  \<open>numpy.require(a, requirements=['OWNDATA'])\<close> returns \<open>a\<close> itself when it owns its
  data and a copy otherwise (NumPy: the requirements are met "by making a copy if needed");
  the copy has a buffer of its own, in memory, and no tie to the file. The source adds
  this call because \<open>resize\<close> refuses an array that does not own its data.
\<close>

definition require_owndata :: "ndarray \<Rightarrow> ndarray" where
  "require_owndata a =
     (if nd_owndata a then a else a\<lparr>nd_owndata := True, nd_mmap := None\<rparr>)"

text \<open>
  A name stops referring to an array (by rebinding or \<^verbatim>\<open>del\<close>): when the array was
  the last reference to a memory map, the map is flushed and closed.
\<close>

definition release :: "ndarray \<Rightarrow> world \<Rightarrow> world" where
  "release a w =
     (case nd_mmap a of None \<Rightarrow> w | Some f \<Rightarrow> w\<lparr>handles := remove1 f (handles w)\<rparr>)"

text \<open>Elements written to a mapped array are the elements of its file.\<close>

definition write_through :: "ndarray \<Rightarrow> world \<Rightarrow> world" where
  "write_through a w =
     (case nd_mmap a of
        None \<Rightarrow> w
      | Some f \<Rightarrow>
          (case files w f of
             Some (NpyFile shp buf) \<Rightarrow> w\<lparr>files := (files w)(f \<mapsto> NpyFile shp (nd_data a))\<rparr>
           | _ \<Rightarrow> w))"

definition npy_body :: "ndarray \<Rightarrow> datapoint \<Rightarrow> (exn + unit) \<times> ndarray" where
  "npy_body npy_mm item =
     (let (s1_val, s2_val, magn_vals, phas_vals) = item;
          n_pts = length magn_vals;
          (n_cols, n_rows) = nd_shape npy_mm
      in case nd_resize npy_mm (n_cols, n_rows + n_pts) of
           Inl e \<Rightarrow> (Inl e, npy_mm)
         | Inr a1 \<Rightarrow>
       (case nd_setitem a1 0 n_rows (n_rows + n_pts) (Scalar s1_val) of
           Inl e \<Rightarrow> (Inl e, a1)
         | Inr a2 \<Rightarrow>
       (case nd_setitem a2 1 n_rows (n_rows + n_pts) (Scalar s2_val) of
           Inl e \<Rightarrow> (Inl e, a2)
         | Inr a3 \<Rightarrow>
       (case nd_setitem a3 2 n_rows (n_rows + n_pts) (Array magn_vals) of
           Inl e \<Rightarrow> (Inl e, a3)
         | Inr a4 \<Rightarrow>
       (case nd_setitem a4 3 n_rows (n_rows + n_pts) (Array phas_vals) of
           Inl e \<Rightarrow> (Inl e, a4)
         | Inr a5 \<Rightarrow> (Inr (), a5))))))"

fun npy_loop :: "datapoint list \<Rightarrow> ndarray \<Rightarrow> (exn + unit) \<times> ndarray" where
  "npy_loop [] npy_mm = (Inr (), npy_mm)"
| "npy_loop (item # data_generator) npy_mm =
     (case npy_body npy_mm item of
        (Inl e, a) \<Rightarrow> (Inl e, a)
      | (Inr u, a) \<Rightarrow> npy_loop data_generator a)"

text \<open>
  The array the loop works on, as it is when the loop is left: the second binding of
  \<open>npy_mm\<close>, after all iterations, when the file could be opened.
\<close>

definition npy_destination :: "datapoint list \<Rightarrow> string \<Rightarrow> (exn + unit) \<times> ndarray" where
  "npy_destination data_generator filename =
     npy_loop data_generator (require_owndata (memmap_array filename (4, 0)))"

text \<open>
  \<open>save_to_npy\<close>: the name \<open>npy_mm\<close> is bound to the memory map, then rebound to what
  \<open>numpy.require\<close> returns (which releases the map unless \<open>require\<close> returned it), the
  loop runs, and \<^verbatim>\<open>del npy_mm\<close> releases the array. There is no \<^verbatim>\<open>return\<close>
  statement.
\<close>

definition save_to_npy :: "datapoint list \<Rightarrow> string \<Rightarrow> world \<Rightarrow> (exn + pyval) \<times> world" where
  "save_to_npy data_generator filename w =
     (case open_memmap filename (4, 0) w of
        Inl e \<Rightarrow> (Inl e, w)
      | Inr (mm, w1) \<Rightarrow>
          (let npy_mm = require_owndata mm;
               w2 = (if nd_mmap npy_mm = nd_mmap mm then w1 else release mm w1);
               (r, a) = npy_loop data_generator npy_mm;
               w3 = write_through a w2
           in (case r of
                 Inl e \<Rightarrow> (Inl e, release a w3)
               | Inr u \<Rightarrow> (Inr PyNone, release a w3))))"

text \<open>\<open>numpy.load(filename)\<close>: the array the file holds, by rows.\<close>

definition numpy_load :: "world \<Rightarrow> string \<Rightarrow> rat list list option" where
  "numpy_load w filename =
     (case files w filename of Some (NpyFile shp buf) \<Rightarrow> Some (rows_of shp buf) | _ \<Rightarrow> None)"

text \<open>Reading the dataset \<open>results\<close> of an HDF5 file.\<close>

definition hdf5_load :: "world \<Rightarrow> string \<Rightarrow> rat list list option" where
  "hdf5_load w filename =
     (case files w filename of Some (Hdf5File ds) \<Rightarrow> Some (ds_rows ds) | _ \<Rightarrow> None)"

subsection \<open>What the writers are meant to store\<close>

text \<open>
  For a sequence of tuples \<open>(s1_val, s2_val, magn_vals, phas_vals)\<close>: four rows, the
  first repeating each \<open>s1_val\<close> once per point of its tuple, the second the same for
  \<open>s2_val\<close>, the third the \<open>magn_vals\<close> one after the other, the fourth the
  \<open>phas_vals\<close>, in the order of the generator.
\<close>

definition n_points :: "datapoint list \<Rightarrow> nat" where
  "n_points gen = sum_list (map (\<lambda>(s1_val, s2_val, magn_vals, phas_vals). length magn_vals) gen)"

definition expected_rows :: "datapoint list \<Rightarrow> rat list list" where
  "expected_rows gen =
     [concat (map (\<lambda>(s1_val, s2_val, magn_vals, phas_vals). replicate (length magn_vals) s1_val) gen),
      concat (map (\<lambda>(s1_val, s2_val, magn_vals, phas_vals). replicate (length magn_vals) s2_val) gen),
      concat (map (\<lambda>(s1_val, s2_val, magn_vals, phas_vals). magn_vals) gen),
      concat (map (\<lambda>(s1_val, s2_val, magn_vals, phas_vals). phas_vals) gen)]"

definition equal_lengths :: "datapoint list \<Rightarrow> bool" where
  "equal_lengths gen =
     list_all (\<lambda>(s1_val, s2_val, magn_vals, phas_vals). length magn_vals = length phas_vals) gen"

text \<open>The two settings of a tuple, and the lengths of its two arrays.\<close>

definition settings :: "datapoint \<Rightarrow> rat \<times> rat" where
  "settings item = (fst item, fst (snd item))"

definition n_vals :: "datapoint \<Rightarrow> nat \<times> nat" where
  "n_vals item = (length (fst (snd (snd item))), length (snd (snd (snd item))))"

section \<open>Clocks, calls and printed lines\<close>

text \<open>
  The state of a notebook that times what it does: the open instrument connections (by
  instrument name), how many readings of \<open>time.time()\<close> and of
  \<open>time.perf_counter()\<close> have been taken, and the log of what happened in order: clock
  readings, calls of an instrument driver or of the QCoDeS measurement (by object and
  method name), and lines printed by the notebook. What an instrument answers, and how
  long anything takes, is not modelled: the clocks are arbitrary sequences of readings.
\<close>

datatype clock = TimeTime | PerfCounter

datatype line =
    Text string
  | ReadIn nat string rat
  | SweepIn "nat list" string rat
  | CompletedRun nat nat
  | TimeSpent "rat list"

datatype event = Clock clock | Command string string | Print line

record lab =
  connections :: "string list"
  time_reads :: nat
  perf_reads :: nat
  log :: "event list"

definition time_time :: "timer \<Rightarrow> lab \<Rightarrow> rat \<times> lab" where
  "time_time wall l =
     (wall (time_reads l), l\<lparr>time_reads := Suc (time_reads l), log := log l @ [Clock TimeTime]\<rparr>)"

definition time_perf_counter :: "timer \<Rightarrow> lab \<Rightarrow> rat \<times> lab" where
  "time_perf_counter perf l =
     (perf (perf_reads l), l\<lparr>perf_reads := Suc (perf_reads l), log := log l @ [Clock PerfCounter]\<rparr>)"

definition command :: "string \<Rightarrow> string \<Rightarrow> lab \<Rightarrow> lab" where
  "command instr name l = l\<lparr>log := log l @ [Command instr name]\<rparr>"

definition print :: "line \<Rightarrow> lab \<Rightarrow> lab" where
  "print msg l = l\<lparr>log := log l @ [Print msg]\<rparr>"

definition connect :: "string \<Rightarrow> lab \<Rightarrow> lab" where
  "connect instr l = l\<lparr>connections := instr # connections l\<rparr>"

definition close :: "string \<Rightarrow> lab \<Rightarrow> lab" where
  "close instr l = l\<lparr>connections := remove1 instr (connections l)\<rparr>"

section \<open>\<open>save_to_sqlite\<close>\<close>

text \<open>
  QCoDeS is outside this repository. What it accepts is a parameter of the model:
  the parameter types \<open>Measurement.register_parameter\<close> allows (it raises RuntimeError
  for another one), the least \<open>write_period\<close> a \<open>Measurement\<close> takes (the setter raises
  ValueError below it), whether the database has an experiment to put the run in
  (\<open>meas.run()\<close> raises ValueError when it has none), and for which results
  \<open>datasaver.add_result\<close> succeeds when the dependent parameters have a given type (it
  raises ValueError for the others).
\<close>

record qcodes =
  allowed_types :: "string list"
  min_write_period :: rat
  has_experiment :: bool
  accepts :: "string \<Rightarrow> datapoint \<Rightarrow> bool"

text \<open>
  The loop over the data generator: each \<open>add_result\<close> is a call of the datasaver; the
  dataset is the sequence of the results added.
\<close>

fun add_results ::
  "qcodes \<Rightarrow> string \<Rightarrow> datapoint list \<Rightarrow> datapoint list \<Rightarrow> lab \<Rightarrow> (exn + unit) \<times> datapoint list \<times> lab" where
  "add_results qc paramtype [] dataset l = (Inr (), dataset, l)"
| "add_results qc paramtype (item # data_generator) dataset l =
     (let l1 = command ''datasaver'' ''add_result'' l in
      if accepts qc paramtype item
      then add_results qc paramtype data_generator (dataset @ [item]) l1
      else (Inl ValueError, dataset, l1))"

text \<open>
  \<open>save_to_sqlite\<close>: the parameters are registered (\<open>magn\<close> and \<open>phas\<close> with
  \<open>paramtype\<close>), \<open>write_period\<close> is set, and inside
  \<^verbatim>\<open>with meas.run() as datasaver\<close> the clock is read and the loop runs. Leaving the
  block flushes the last results, whether the loop ended or raised. After the block the
  clock is read again and the function returns \<open>(saving_time, dataset)\<close>.
\<close>

definition save_to_sqlite ::
  "qcodes \<Rightarrow> datapoint list \<Rightarrow> string \<Rightarrow> rat \<Rightarrow> timer \<Rightarrow> lab \<Rightarrow> (exn + pyval) \<times> lab" where
  "save_to_sqlite qc data_generator paramtype write_period perf l =
     (if paramtype \<notin> set (allowed_types qc) then (Inl RuntimeError, l)
      else if write_period < min_write_period qc then (Inl ValueError, l)
      else if \<not> has_experiment qc then (Inl ValueError, command ''meas'' ''run'' l)
      else
        let l1 = command ''meas'' ''run'' l;
            (t0, l2) = time_perf_counter perf l1;
            (r, dataset, l3) = add_results qc paramtype data_generator [] l2;
            l4 = command ''datasaver'' ''__exit__'' l3
        in (case r of
              Inl e \<Rightarrow> (Inl e, l4)
            | Inr u \<Rightarrow>
                (let (t1, l5) = time_perf_counter perf l4;
                     saving_time = t1 - t0
                 in (Inr (PyTuple [PyNum saving_time, PyDataSet dataset]), l5))))"

text \<open>
  \<^verbatim>\<open>time_save_to_sqlite_numeric = time_it(number=3, repeat=2)(partial(save_to_sqlite,
  paramtype='numeric'))\<close>, with the default \<open>write_period\<close> of 10. Call \<open>k\<close> of the
  profiled function consumes the generator \<open>gens k\<close> that \<open>create_data_generator()\<close>
  makes for it, and finds \<open>2 * k\<close> readings of \<open>time.perf_counter()\<close> taken, the only
  readings of that clock being the two of each call.
\<close>

definition sqlite_sut :: "qcodes \<Rightarrow> (nat \<Rightarrow> datapoint list) \<Rightarrow> string \<Rightarrow> timer \<Rightarrow> sut" where
  "sqlite_sut qc gens paramtype perf k =
     fst (save_to_sqlite qc (gens k) paramtype 10 perf
            \<lparr>connections = [], time_reads = 0, perf_reads = 2 * k, log = []\<rparr>)"

definition time_save_to_sqlite_numeric ::
  "qcodes \<Rightarrow> (nat \<Rightarrow> datapoint list) \<Rightarrow> timer \<Rightarrow> timer \<Rightarrow>
     ((exn + TimeitResult) \<times> printed list \<times> nat) option" where
  "time_save_to_sqlite_numeric qc gens perf tm =
     time_it (Some 3) 2 (sqlite_sut qc gens ''numeric'' perf) tm"

section \<open>The instrument benchmarks\<close>

subsection \<open>Agilent 34411A versus Keysight 34465A\<close>

text \<open>\<^verbatim>\<open>for ii in range(N): dmm.volt()\<close>\<close>

fun volt_loop :: "string \<Rightarrow> nat \<Rightarrow> lab \<Rightarrow> lab" where
  "volt_loop dmm 0 l = l"
| "volt_loop dmm (Suc n) l = volt_loop dmm n (command dmm ''volt'' l)"

text \<open>
  One timed block of the raw readings:
  \<^verbatim>\<open>t_start = time.time(); (the loop); t_stop = time.time(); print(... N, t_stop-t_start)\<close>
\<close>

definition read_values :: "string \<Rightarrow> nat \<Rightarrow> timer \<Rightarrow> lab \<Rightarrow> lab" where
  "read_values dmm N wall l =
     (let (t_start, l1) = time_time wall l;
          l2 = volt_loop dmm N l1;
          (t_stop, l3) = time_time wall l2
      in print (ReadIn N dmm (t_stop - t_start)) l3)"

definition connect_cell :: "lab \<Rightarrow> lab" where
  "connect_cell l = connect ''qdac'' (connect ''Agilent'' (connect ''Keysight'' l))"

definition setup_cell :: "lab \<Rightarrow> lab" where
  "setup_cell l =
     command ''Agilent'' ''range'' (command ''Keysight'' ''range''
       (command ''Agilent'' ''NPLC'' (command ''Keysight'' ''NPLC'' l)))"

definition displays_on_body :: "timer \<Rightarrow> nat \<Rightarrow> lab \<Rightarrow> lab" where
  "displays_on_body wall N l =
     print (Text ''----------'') (read_values ''Agilent'' N wall (read_values ''Keysight'' N wall l))"

definition displays_on_cell :: "timer \<Rightarrow> lab \<Rightarrow> lab" where
  "displays_on_cell wall l =
     fold (displays_on_body wall) [512, 1024, 2048]
       (print (Text ''----------'') (print (Text ''Reading with displays ON'')
         (command ''Agilent'' ''display_clear'' (command ''Keysight'' ''display_clear'' l))))"

definition displays_off_body :: "timer \<Rightarrow> nat \<Rightarrow> lab \<Rightarrow> lab" where
  "displays_off_body wall N l =
     (let l1 = command ''Keysight'' ''display_text'' l;
          l2 = read_values ''Keysight'' N wall l1;
          l3 = command ''Keysight'' ''display_clear'' l2;
          l4 = command ''Agilent'' ''display_text'' l3;
          l5 = read_values ''Agilent'' N wall l4;
          l6 = command ''Agilent'' ''display_clear'' l5
      in print (Text ''----------'') l6)"

definition displays_off_cell :: "timer \<Rightarrow> lab \<Rightarrow> lab" where
  "displays_off_cell wall l =
     fold (displays_off_body wall) [512, 1024, 2048]
       (print (Text ''----------'') (print (Text ''Reading with displays OFF'') l))"

text \<open>
  A sweep with \<open>qc.Loop\<close>: \<^verbatim>\<open>t_start = time.time(); _ = loop.run(); t_stop = time.time()\<close>
  and a printed line; what \<open>loop.run()\<close> sends to the instruments is inside QCoDeS and
  logged as one command.
\<close>

definition timed_sweep :: "string \<Rightarrow> nat list \<Rightarrow> timer \<Rightarrow> lab \<Rightarrow> lab" where
  "timed_sweep dmm points wall l =
     (let (t_start, l1) = time_time wall l;
          l2 = command dmm ''loop.run'' l1;
          (t_stop, l3) = time_time wall l2
      in print (SweepIn points dmm (t_stop - t_start)) l3)"

text \<open>
  The two sweep cells: the displays are switched off, the Keysight sweep and the Agilent
  sweep are timed, and the displays are cleared (Agilent first after the sweep of 512
  points, Keysight first after the sweep of 100 by 100 points).
\<close>

definition sweep_1d_cell :: "timer \<Rightarrow> lab \<Rightarrow> lab" where
  "sweep_1d_cell wall l =
     (let l1 = command ''Agilent'' ''display_text'' (command ''Keysight'' ''display_text'' l);
          l2 = timed_sweep ''Keysight'' [512] wall l1;
          l3 = timed_sweep ''Agilent'' [512] wall l2
      in command ''Keysight'' ''display_clear'' (command ''Agilent'' ''display_clear'' l3))"

definition sweep_2d_cell :: "timer \<Rightarrow> lab \<Rightarrow> lab" where
  "sweep_2d_cell wall l =
     (let l1 = command ''Agilent'' ''display_text'' (command ''Keysight'' ''display_text'' l);
          l2 = timed_sweep ''Keysight'' [100, 100] wall l1;
          l3 = timed_sweep ''Agilent'' [100, 100] wall l2
      in command ''Agilent'' ''display_clear'' (command ''Keysight'' ''display_clear'' l3))"

text \<open>The last cell: \<^verbatim>\<open>ks.close(); agi.close(); qdac.close()\<close>\<close>

definition close_cell :: "lab \<Rightarrow> lab" where
  "close_cell l = close ''qdac'' (close ''Agilent'' (close ''Keysight'' l))"

text \<open>
  The notebook, its cells run from the first to the last. The cell that builds
  \<open>qc.Station(ks, agi, qdac)\<close> sends nothing and leaves this state as it is.
\<close>

definition dmm_notebook :: "timer \<Rightarrow> lab \<Rightarrow> lab" where
  "dmm_notebook wall l =
     close_cell (sweep_2d_cell wall (sweep_1d_cell wall
       (displays_off_cell wall (displays_on_cell wall (setup_cell (connect_cell l))))))"

subsection \<open>Waveform upload to the Tektronix AWG70002A\<close>

text \<open>
  \<open>benchmark_seqx\<close>: \<open>times\<close> starts as \<open>no_of_reps\<close> zeros; run \<open>n\<close> reads
  \<open>time.perf_counter()\<close> before and after its four commands, stores the difference in
  \<open>times[n]\<close> and prints a progress line. The function returns \<open>times\<close>.
\<close>

definition seqx_run :: "timer \<Rightarrow> nat \<Rightarrow> nat \<Rightarrow> rat list \<times> lab \<Rightarrow> rat list \<times> lab" where
  "seqx_run perf no_of_reps n st =
     (let (times, l) = st;
          (t_start, l1) = time_perf_counter perf l;
          l2 = command ''awg'' ''sendSEQXFile'' l1;
          l3 = command ''awg'' ''*OPC?'' l2;
          l4 = command ''awg'' ''loadSEQXFile'' l3;
          l5 = command ''awg'' ''setSequenceTrack'' l4;
          (t_stop, l6) = time_perf_counter perf l5
      in (times[n := t_stop - t_start], print (CompletedRun (n + 1) no_of_reps) l6))"

definition benchmark_seqx :: "nat \<Rightarrow> timer \<Rightarrow> lab \<Rightarrow> rat list \<times> lab" where
  "benchmark_seqx no_of_reps perf l =
     fold (seqx_run perf no_of_reps) [0..<no_of_reps]
       (replicate no_of_reps 0,
        command ''awg'' ''clearWaveformList'' (command ''awg'' ''clearSequenceList'' l))"

text \<open>
  The cells of that notebook which talk to the instrument: connecting, sending and
  loading one waveform file, the benchmark with the summary its cell prints (the mean and
  the deviation of \<open>times\<close>, carried by the line as the list itself), and
  \<^verbatim>\<open>awg.close()\<close>.
\<close>

definition awg_connect_cell :: "lab \<Rightarrow> lab" where
  "awg_connect_cell l = connect ''awg'' l"

definition awg_upload_cell :: "lab \<Rightarrow> lab" where
  "awg_upload_cell l = command ''awg'' ''loadWFMXFile'' (command ''awg'' ''sendWFMXFile'' l)"

definition benchmark_cell :: "timer \<Rightarrow> lab \<Rightarrow> rat list \<times> lab" where
  "benchmark_cell perf l =
     (let (times, l1) = benchmark_seqx 10 perf l
      in (times, print (TimeSpent times) (print (Text ''Benchmark complete.'')
            (print (Text ''-------------------------'') l1))))"

definition awg_close_cell :: "lab \<Rightarrow> lab" where
  "awg_close_cell l = close ''awg'' l"

definition awg_notebook :: "timer \<Rightarrow> lab \<Rightarrow> lab" where
  "awg_notebook perf l =
     awg_close_cell (snd (benchmark_cell perf (awg_upload_cell (awg_connect_cell l))))"

text \<open>What one run of \<open>benchmark_seqx\<close> is meant to log, in order.\<close>

definition upload_events :: "nat \<Rightarrow> nat \<Rightarrow> event list" where
  "upload_events no_of_reps n =
     [Clock PerfCounter, Command ''awg'' ''sendSEQXFile'', Command ''awg'' ''*OPC?'',
      Command ''awg'' ''loadSEQXFile'', Command ''awg'' ''setSequenceTrack'',
      Clock PerfCounter, Print (CompletedRun (n + 1) no_of_reps)]"

section \<open>Properties of the \<open>time_it\<close> decorator\<close>

lemma reported_duration_step:
  "reported_duration v = Some d \<Longrightarrow>
     \<exists>x. first_return_value v = Inr x \<and> add_time t x = Inr (t + d)"
  by (induction v rule: reported_duration.induct) auto

lemma inner_loop_sum:
  assumes "\<And>i. k \<le> i \<Longrightarrow> i < k + n \<Longrightarrow> sut i = Inr (rv i) \<and> reported_duration (rv i) = Some (d i)"
  shows "inner_loop sut n tm t k = (Inr (t + sum d {k..<k + n}), k + n)"
  using assms
proof (induction n arbitrary: t k)
  case 0
  then show ?case by simp
next
  case (Suc n)
  have here: "sut k = Inr (rv k)" "reported_duration (rv k) = Some (d k)"
    using Suc.prems [of k] by simp_all
  obtain x where x: "first_return_value (rv k) = Inr x" "add_time t x = Inr (t + d k)"
    using reported_duration_step [OF here(2)] by blast
  have rest: "inner_loop sut n tm (t + d k) (Suc k) = (Inr (t + d k + sum d {Suc k..<Suc k + n}), Suc k + n)"
    by (rule Suc.IH) (use Suc.prems in simp)
  have "sum d {k..<k + Suc n} = d k + sum d {Suc k..<Suc k + n}"
    by (simp add: sum.atLeast_Suc_lessThan)
  with here x rest show ?case by (simp add: add.assoc)
qed

lemma repeat_loop_sums:
  assumes "\<And>i. k \<le> i \<Longrightarrow> i < k + rep * number \<Longrightarrow> sut i = Inr (rv i) \<and> reported_duration (rv i) = Some (d i)"
  shows "repeat_loop sut tm rep number r k =
           (Inr (r @ map (\<lambda>j. sum d {k + j * number..<k + j * number + number}) [0..<rep]),
            k + rep * number)"
  using assms
proof (induction rep arbitrary: r k)
  case 0
  then show ?case by simp
next
  case (Suc rep)
  have run: "timeit sut tm number k = (Inr (sum d {k..<k + number}), k + number)"
    unfolding timeit_def inner_def
    using inner_loop_sum [of k number sut rv d tm 0] Suc.prems by simp
  have rest: "repeat_loop sut tm rep number (r @ [sum d {k..<k + number}]) (k + number) =
      (Inr ((r @ [sum d {k..<k + number}]) @
            map (\<lambda>j. sum d {k + number + j * number..<k + number + j * number + number}) [0..<rep]),
       k + number + rep * number)"
    by (rule Suc.IH) (use Suc.prems in simp)
  have "map (\<lambda>j. sum d {k + j * number..<k + j * number + number}) [0..<Suc rep] =
        sum d {k..<k + number} #
        map (\<lambda>j. sum d {k + number + j * number..<k + number + j * number + number}) [0..<rep]"
    by (simp add: upt_rec [of 0 "Suc rep"] map_Suc_upt [symmetric] add.assoc add.commute del: upt_Suc)
  with run rest show ?case by (simp add: add.assoc add.commute)
qed

text \<open>
  C1. For positive \<open>number\<close> and \<open>repeat\<close> and a profiled function whose calls each
  report a duration (the first element of the returned tuple, or the returned number),
  the wrapper collects, for each of the \<open>repeat\<close> timing runs, the sum over the
  \<open>number\<close> executions of the durations the function reports, whatever the clock
  \<open>tm\<close> reads, and returns (and prints) the \<open>TimeitResult\<close> whose \<open>best\<close> and
  \<open>worst\<close> are the minimum and the maximum of these run totals divided by \<open>number\<close>.
\<close>

theorem time_it_reports_sut_durations:
  assumes "0 < number" and "0 < rep"
    and "\<forall>i < rep * number. sut i = Inr (rv i) \<and> reported_duration (rv i) = Some (d i)"
  shows "time_it (Some number) rep sut tm =
           Some (Inr (expected_result d number rep),
                 [PrintResult (expected_result d number rep)], rep * number)"
proof -
  have "repeat_timer sut tm rep number 0 = (Inr (run_totals d number rep), rep * number)"
    unfolding repeat_timer_def run_totals_def
    using repeat_loop_sums [of 0 rep number sut rv d tm "[]"] assms(3) by simp
  moreover have "run_totals d number rep \<noteq> []"
    using assms(2) by (simp add: run_totals_def)
  ultimately show ?thesis
    using assms(1) by (simp add: time_it_def wrapper_def profiling_def expected_result_def Let_def)
qed

theorem time_it_reports_sut_durations_witness:
  "time_save_to_sqlite_numeric
       \<lparr>allowed_types = [''array'', ''numeric'', ''text'', ''complex''], min_write_period = 1 / 1000, has_experiment = True,
        accepts = (\<lambda>paramtype item. paramtype = ''numeric'' \<or> paramtype = ''array'')\<rparr>
       (\<lambda>k. [(0, 1, [2], [3])]) (\<lambda>i. of_nat (i * i)) (\<lambda>i. 0) =
     Some (Inr \<lparr>loops = 3, repeat = 2, best = 5, worst = 17, all_runs = [15, 51],
                compile_time = 0, precision = 3\<rparr>,
           [PrintResult \<lparr>loops = 3, repeat = 2, best = 5, worst = 17, all_runs = [15, 51],
                compile_time = 0, precision = 3\<rparr>], 6)"
proof -
  let ?d = "\<lambda>i::nat. (of_nat ((2 * i + 1) * (2 * i + 1)) - of_nat (2 * i * (2 * i)) :: rat)"
  let ?qc = "\<lparr>allowed_types = [''array'', ''numeric'', ''text'', ''complex''],
             min_write_period = 1 / 1000, has_experiment = True,
             accepts = (\<lambda>paramtype item. paramtype = ''numeric'' \<or> paramtype = ''array'')\<rparr>"
  have tot: "run_totals ?d 3 2 = [15, 51]"
    by (simp add: run_totals_def eval_nat_numeral)
  have pos: "(0::nat) < 3" "(0::nat) < 2" by simp_all
  have calls: "\<forall>i < 2 * 3.
      sqlite_sut ?qc (\<lambda>k. [(0, 1, [2], [3])]) ''numeric'' (\<lambda>i. of_nat (i * i)) i =
        Inr (PyTuple [PyNum (?d i), PyDataSet [(0, 1, [2], [3])]]) \<and>
      reported_duration (PyTuple [PyNum (?d i), PyDataSet [(0, 1, [2], [3])]]) = Some (?d i)"
    by (simp add: sqlite_sut_def save_to_sqlite_def time_perf_counter_def command_def
        Let_def algebra_simps)
  note r = time_it_reports_sut_durations [OF pos calls, of "\<lambda>i. 0"]
  show ?thesis
    unfolding time_save_to_sqlite_numeric_def r expected_result_def tot by simp
qed

lemma inner_loop_calls:
  "inner_loop sut n tm t k = (r, k') \<Longrightarrow>
     k \<le> k' \<and> (\<forall>m e. k \<le> m \<and> m < k' \<and> sut m = Inl e \<longrightarrow> r = Inl e) \<and>
     (\<forall>t'. r = Inr t' \<longrightarrow> k' = k + n)"
proof (induction n arbitrary: t k)
  case 0
  then show ?case by auto
next
  case (Suc n)
  show ?case
  proof (cases "sut k")
    case (Inl e)
    with Suc.prems show ?thesis by (auto simp: less_Suc_eq)
  next
    case (Inr v)
    show ?thesis
    proof (cases "first_return_value v")
      case (Inl e)
      with Inr Suc.prems show ?thesis by (auto simp: less_Suc_eq)
    next
      case x: (Inr x)
      show ?thesis
      proof (cases "add_time t x")
        case (Inl e)
        with Inr x Suc.prems show ?thesis by (auto simp: less_Suc_eq)
      next
        case t': (Inr t')
        with Inr x Suc.prems have "inner_loop sut n tm t' (Suc k) = (r, k')" by simp
        from Suc.IH [OF this]
        have a: "Suc k \<le> k'"
          and b: "\<And>m e. Suc k \<le> m \<Longrightarrow> m < k' \<Longrightarrow> sut m = Inl e \<Longrightarrow> r = Inl e"
          and c: "\<And>t'. r = Inr t' \<Longrightarrow> k' = Suc k + n"
          by blast+
        have "r = Inl e" if "k \<le> m" "m < k'" "sut m = Inl e" for m e
        proof -
          from that Inr have "m \<noteq> k" by auto
          with that have "Suc k \<le> m" by simp
          with that show ?thesis by (rule_tac b)
        qed
        with a c show ?thesis by auto
      qed
    qed
  qed
qed

lemma timeit_calls:
  "timeit sut tm n k = (r, k') \<Longrightarrow>
     k \<le> k' \<and> (\<forall>m e. k \<le> m \<and> m < k' \<and> sut m = Inl e \<longrightarrow> r = Inl e) \<and>
     (\<forall>t'. r = Inr t' \<longrightarrow> k' = k + n)"
  unfolding timeit_def inner_def by (rule inner_loop_calls)

lemma repeat_loop_calls:
  "repeat_loop sut tm i n rs k = (r, k') \<Longrightarrow>
     k \<le> k' \<and> (\<forall>m e. k \<le> m \<and> m < k' \<and> sut m = Inl e \<longrightarrow> r = Inl e)"
proof (induction i arbitrary: rs k)
  case 0
  then show ?case by auto
next
  case (Suc i)
  obtain r1 k1 where run: "timeit sut tm n k = (r1, k1)" by (cases "timeit sut tm n k")
  note c = timeit_calls [OF run]
  show ?case
  proof (cases r1)
    case (Inl e)
    with run Suc.prems c show ?thesis by auto
  next
    case (Inr t)
    with run Suc.prems have "repeat_loop sut tm i n (rs @ [t]) k1 = (r, k')" by simp
    from Suc.IH [OF this] c Inr show ?thesis
      by (metis Inl_Inr_False le_trans not_le_imp_less)
  qed
qed

lemma autorange_calls_aux:
  assumes h: "autorange sut tm i js k = Some y"
  shows "k \<le> snd y \<and> (\<forall>m e. k \<le> m \<and> m < snd y \<and> sut m = Inl e \<longrightarrow> fst y = Inl e)"
proof (rule autorange.raw_induct
      [where P = "\<lambda>sut tm i js k y.
          k \<le> snd y \<and> (\<forall>m e. k \<le> m \<and> m < snd y \<and> sut m = Inl e \<longrightarrow> fst y = Inl e)", OF _ h])
  fix autorange :: "sut \<Rightarrow> timer \<Rightarrow> nat \<Rightarrow> nat list \<Rightarrow> nat \<Rightarrow> ((exn + nat \<times> rat) \<times> nat) option"
    and sut tm i js k y
  assume IH: "\<And>sut tm i js k y. autorange sut tm i js k = Some y \<Longrightarrow>
        k \<le> snd y \<and> (\<forall>m e. k \<le> m \<and> m < snd y \<and> sut m = Inl e \<longrightarrow> fst y = Inl e)"
  assume eq: "(case js of [] \<Rightarrow> autorange sut tm (i * 10) [1, 2, 5] k
        | j # js' \<Rightarrow>
          (case timeit sut tm (i * j) k of (Inl e, k') \<Rightarrow> Some (Inl e, k')
           | (Inr time_taken, k') \<Rightarrow>
              (if 2 / 10 \<le> time_taken then Some (Inr (i * j, time_taken), k')
               else autorange sut tm i js' k'))) = Some y"
  show "k \<le> snd y \<and> (\<forall>m e. k \<le> m \<and> m < snd y \<and> sut m = Inl e \<longrightarrow> fst y = Inl e)"
  proof (cases js)
    case Nil
    with eq have "autorange sut tm (i * 10) [1, 2, 5] k = Some y" by simp
    then show ?thesis by (rule IH)
  next
    case (Cons j js')
    obtain r1 k1 where run: "timeit sut tm (i * j) k = (r1, k1)"
      by (cases "timeit sut tm (i * j) k")
    from timeit_calls [OF run]
    have c1: "k \<le> k1"
      and c2: "\<And>m e. k \<le> m \<Longrightarrow> m < k1 \<Longrightarrow> sut m = Inl e \<Longrightarrow> r1 = Inl e"
      by blast+
    show ?thesis
    proof (cases r1)
      case (Inl e)
      with eq Cons run have "y = (Inl e, k1)" by simp
      with c1 c2 Inl show ?thesis by auto
    next
      case (Inr t)
      show ?thesis
      proof (cases "2 / 10 \<le> t")
        case True
        with eq Cons run Inr have "y = (Inr (i * j, t), k1)" by simp
        with c1 c2 Inr show ?thesis by auto
      next
        case False
        with eq Cons run Inr have "autorange sut tm i js' k1 = Some y" by simp
        from IH [OF this]
        have d1: "k1 \<le> snd y"
          and d2: "\<And>m e. k1 \<le> m \<Longrightarrow> m < snd y \<Longrightarrow> sut m = Inl e \<Longrightarrow> fst y = Inl e"
          by blast+
        have "fst y = Inl e" if "k \<le> m" "m < snd y" "sut m = Inl e" for m e
        proof (cases "m < k1")
          case True
          from c2 [OF that(1) True that(3)] Inr show ?thesis by simp
        next
          case False
          then have "k1 \<le> m" by simp
          then show ?thesis using that(2,3) by (rule d2)
        qed
        with c1 d1 show ?thesis by auto
      qed
    qed
  qed
qed

lemma autorange_terminates:
  assumes "sut m = Inl e" and "k \<le> m" and "0 < i" and "\<forall>j \<in> set js. 0 < j"
  shows "\<exists>res. autorange sut tm i js k = Some res"
  using assms(2-)
proof (induction "Suc m - k" arbitrary: i js k rule: less_induct)
  case less
  have trial: "\<exists>res. autorange sut tm i' (j # js') k = Some res"
    if "0 < i'" "0 < j" "\<forall>x \<in> set js'. 0 < x" for i' j js'
  proof -
    obtain r1 k1 where run: "timeit sut tm (i' * j) k = (r1, k1)"
      by (cases "timeit sut tm (i' * j) k")
    note c = timeit_calls [OF run]
    show ?thesis
    proof (cases r1)
      case (Inl e')
      with run show ?thesis by (subst autorange.simps) simp
    next
      case (Inr t)
      with c have k1: "k1 = k + i' * j" by simp
      have "k1 \<le> m"
      proof (rule ccontr)
        assume "\<not> k1 \<le> m"
        then have "m < k1" by simp
        moreover from c have "k \<le> m \<and> m < k1 \<and> sut m = Inl e \<longrightarrow> r1 = Inl e" by blast
        ultimately have "r1 = Inl e" using less.prems(1) assms(1) by simp
        with Inr show False by simp
      qed
      moreover from k1 that have "k < k1" by simp
      ultimately have "Suc m - k1 < Suc m - k" by simp
      from less.hyps [OF this \<open>k1 \<le> m\<close> that(1) that(3)]
      obtain res where "autorange sut tm i' js' k1 = Some res" by blast
      with run Inr show ?thesis by (subst autorange.simps) simp
    qed
  qed
  show ?case
  proof (cases js)
    case Nil
    from trial [of "i * 10" 1 "[2, 5]"] less.prems(2)
    obtain res where "autorange sut tm (i * 10) [1, 2, 5] k = Some res" by auto
    with Nil show ?thesis by (subst autorange.simps) simp
  next
    case (Cons j js')
    with trial [of i j js'] less.prems show ?thesis by simp
  qed
qed

lemma profiling_calls:
  assumes "profiling number rep sut tm k = Some (r, k')"
  shows "k \<le> k' \<and> (\<forall>m e. k \<le> m \<and> m < k' \<and> sut m = Inl e \<longrightarrow> r = Inl e)"
proof -
  obtain r0 k0 where first:
    "(case number of None \<Rightarrow> autorange sut tm 1 [1, 2, 5] k | Some n \<Rightarrow> Some (Inr (n, 0), k))
       = Some (r0, k0)"
    using assms by (auto simp: profiling_def split: option.splits)
  have c0: "k \<le> k0 \<and> (\<forall>m e. k \<le> m \<and> m < k0 \<and> sut m = Inl e \<longrightarrow> r0 = Inl e)"
  proof (cases number)
    case None
    with first have "autorange sut tm 1 [1, 2, 5] k = Some (r0, k0)" by simp
    from autorange_calls_aux [OF this] show ?thesis by simp
  next
    case (Some n)
    with first show ?thesis by auto
  qed
  show ?thesis
  proof (cases r0)
    case (Inl e)
    with first assms have "r = Inl e" "k' = k0" by (simp_all add: profiling_def)
    with c0 Inl show ?thesis by simp
  next
    case (Inr p)
    obtain number' t where p: "p = (number', t)" by (cases p)
    obtain r1 k1 where rp: "repeat_timer sut tm rep number' k0 = (r1, k1)"
      by (cases "repeat_timer sut tm rep number' k0")
    from repeat_loop_calls [OF rp [unfolded repeat_timer_def]]
    have d1: "k0 \<le> k1"
      and d2: "\<And>m e. k0 \<le> m \<Longrightarrow> m < k1 \<Longrightarrow> sut m = Inl e \<Longrightarrow> r1 = Inl e"
      by blast+
    from c0 Inr have none_before: "\<And>m e. k \<le> m \<Longrightarrow> m < k0 \<Longrightarrow> sut m \<noteq> Inl e"
      by auto
    have k': "k' = k1" and r: "(\<exists>e. r1 = Inl e \<and> r = Inl e) \<or> (\<exists>runs. r1 = Inr runs)"
      using first assms Inr p rp by (cases r1; simp add: profiling_def)+
    have "r = Inl e" if "k \<le> m" "m < k'" "sut m = Inl e" for m e
    proof (cases "m < k0")
      case True
      with none_before that show ?thesis by blast
    next
      case False
      then have "k0 \<le> m" by simp
      with that k' have "r1 = Inl e" by (auto intro: d2)
      with r show ?thesis by auto
    qed
    with c0 d1 k' show ?thesis by auto
  qed
qed

lemma profiling_terminates:
  assumes "sut m = Inl e" and "k \<le> m"
  shows "\<exists>res. profiling number rep sut tm k = Some res"
proof (cases number)
  case None
  from autorange_terminates [of sut m e k 1 "[1, 2, 5]" tm] assms
  obtain res where "autorange sut tm 1 [1, 2, 5] k = Some res" by auto
  with None show ?thesis
    by (auto simp: profiling_def split: prod.splits sum.splits)
next
  case (Some n)
  then show ?thesis
    by (auto simp: profiling_def split: prod.splits sum.splits)
qed

text \<open>
  When some call of the profiled function raises, the wrapper comes to an end, also with
  \<open>number = None\<close>, where \<open>autorange\<close> loops; and a call that raises among the calls
  made is the exception the wrapper raises.
\<close>

lemma time_it_ends_when_sut_raises:
  assumes "sut m = Inl e"
  shows "\<exists>r out k'. time_it number rep sut tm = Some (r, out, k') \<and>
           (m < k' \<longrightarrow> r = Inl e \<and> out = [PrintExc e])"
proof -
  from profiling_terminates [of sut m e 0 number rep tm] assms
  obtain r0 k' where p: "profiling number rep sut tm 0 = Some (r0, k')" by auto
  from profiling_calls [OF p] assms have reach: "m < k' \<Longrightarrow> r0 = Inl e" by auto
  show ?thesis
  proof (cases r0)
    case (Inl e')
    with p reach show ?thesis by (auto simp: time_it_def wrapper_def)
  next
    case (Inr q)
    with reach have "\<not> m < k'" by auto
    with p Inr show ?thesis
      by (cases q) (auto simp: time_it_def wrapper_def Let_def)
  qed
qed


lemma time_it_autorange_example:
  "time_it None 5 (\<lambda>i. Inl (OtherError ''connection lost'')) (\<lambda>i. 0) =
     Some (Inl (OtherError ''connection lost''), [PrintExc (OtherError ''connection lost'')], 1)"
  by (simp add: time_it_def wrapper_def profiling_def autorange.simps [of _ _ _ "_ # _"]
      timeit_def inner_def)

lemma inner_loop_raises:
  assumes "sut m = Inl e"
    and "\<And>i. k \<le> i \<Longrightarrow> i < m \<Longrightarrow> sut i = Inr (rv i) \<and> reported_duration (rv i) = Some (d i)"
    and "k \<le> m" and "m < k + n"
  shows "inner_loop sut n tm t k = (Inl e, Suc m)"
  using assms(2-)
proof (induction n arbitrary: t k)
  case 0
  then show ?case by simp
next
  case (Suc n)
  show ?case
  proof (cases "k = m")
    case True
    with assms(1) show ?thesis by simp
  next
    case False
    with Suc.prems have lt: "k < m" by simp
    have here: "sut k = Inr (rv k)" "reported_duration (rv k) = Some (d k)"
      using Suc.prems(1) [of k] lt by simp_all
    obtain x where x: "first_return_value (rv k) = Inr x" "add_time t x = Inr (t + d k)"
      using reported_duration_step [OF here(2)] by blast
    have "inner_loop sut n tm (t + d k) (Suc k) = (Inl e, Suc m)"
      by (rule Suc.IH) (use Suc.prems lt in simp_all)
    with here x show ?thesis by simp
  qed
qed

lemma timeit_sum:
  assumes "\<And>i. k \<le> i \<Longrightarrow> i < k + n \<Longrightarrow> sut i = Inr (rv i) \<and> reported_duration (rv i) = Some (d i)"
  shows "timeit sut tm n k = (Inr (sum d {k..<k + n}), k + n)"
  unfolding timeit_def inner_def using inner_loop_sum [of k n sut rv d tm 0] assms by simp

lemma timeit_raises:
  assumes "sut m = Inl e"
    and "\<And>i. k \<le> i \<Longrightarrow> i < m \<Longrightarrow> sut i = Inr (rv i) \<and> reported_duration (rv i) = Some (d i)"
    and "k \<le> m" and "m < k + n"
  shows "timeit sut tm n k = (Inl e, Suc m)"
  unfolding timeit_def inner_def using assms by (rule inner_loop_raises)

lemma repeat_loop_raises:
  assumes "sut m = Inl e"
    and "\<And>i. k \<le> i \<Longrightarrow> i < m \<Longrightarrow> sut i = Inr (rv i) \<and> reported_duration (rv i) = Some (d i)"
    and "k \<le> m" and "m < k + rep * n"
  shows "repeat_loop sut tm rep n r k = (Inl e, Suc m)"
  using assms(2-)
proof (induction rep arbitrary: r k)
  case 0
  then show ?case by simp
next
  case (Suc rep)
  show ?case
  proof (cases "m < k + n")
    case True
    have "timeit sut tm n k = (Inl e, Suc m)"
      by (rule timeit_raises [of sut m e k rv d n tm]) (use assms(1) Suc.prems True in simp_all)
    then show ?thesis by simp
  next
    case False
    then have le: "k + n \<le> m" by simp
    have run: "timeit sut tm n k = (Inr (sum d {k..<k + n}), k + n)"
      by (rule timeit_sum [of k n sut rv d tm]) (use Suc.prems(1) le in simp)
    have "repeat_loop sut tm rep n (r @ [sum d {k..<k + n}]) (k + n) = (Inl e, Suc m)"
      by (rule Suc.IH) (use Suc.prems le in \<open>simp_all add: add.assoc\<close>)
    with run show ?thesis by simp
  qed
qed

lemma trial_number_pos: "0 < trial_number t"
proof -
  have "t mod 3 < 3" by simp
  then have "t mod 3 = 0 \<or> t mod 3 = 1 \<or> t mod 3 = 2" by arith
  then show ?thesis by (auto simp: trial_number_def)
qed

lemma trial_start_ge: "t \<le> trial_start t"
proof (induction t)
  case 0
  then show ?case by simp
next
  case (Suc t)
  with trial_number_pos [of t] show ?case by simp
qed

lemma at_trial_unfold:
  "at_trial sut tm t =
     (case timeit sut tm (trial_number t) (trial_start t) of
        (Inl e, k') \<Rightarrow> Some (Inl e, k')
      | (Inr time_taken, k') \<Rightarrow>
          if 2 / 10 \<le> time_taken then Some (Inr (trial_number t, time_taken), k')
          else if k' = trial_start (Suc t) then at_trial sut tm (Suc t)
          else autorange sut tm (10 ^ (t div 3)) (drop (Suc (t mod 3)) [1, 2, 5]) k')"
proof -
  have "t mod 3 < 3" by simp
  then consider "t mod 3 = 0" | "t mod 3 = 1" | "t mod 3 = 2" by arith
  then show ?thesis
  proof cases
    case 1
    then have s: "Suc t mod 3 = 1" "Suc t div 3 = t div 3" by (simp_all add: mod_Suc div_Suc)
    show ?thesis
      unfolding at_trial_def s
      by (subst autorange.simps) (simp add: 1 trial_number_def split: prod.splits sum.splits)
  next
    case 2
    then have s: "Suc t mod 3 = 2" "Suc t div 3 = t div 3" by (simp_all add: mod_Suc div_Suc)
    show ?thesis
      unfolding at_trial_def s
      by (subst autorange.simps) (simp add: 2 trial_number_def split: prod.splits sum.splits)
  next
    case 3
    then have s: "Suc t mod 3 = 0" "Suc t div 3 = Suc (t div 3)" by (simp_all add: mod_Suc div_Suc)
    have e: "autorange sut tm (10 ^ (t div 3)) [] k' = autorange sut tm (10 ^ (t div 3) * 10) [1, 2, 5] k'" for k'
      by (subst autorange.simps) simp
    show ?thesis
      unfolding at_trial_def s
      by (subst autorange.simps) (simp add: 3 trial_number_def e mult.commute split: prod.splits sum.splits)
  qed
qed

lemma at_trial_below:
  assumes "\<And>i. i < trial_start (Suc t) \<Longrightarrow> sut i = Inr (rv i) \<and> reported_duration (rv i) = Some (d i)"
    and "trial_total d t < 2 / 10"
  shows "at_trial sut tm t = at_trial sut tm (Suc t)"
proof -
  have "timeit sut tm (trial_number t) (trial_start t) =
          (Inr (trial_total d t), trial_start (Suc t))"
    unfolding trial_total_def
    using timeit_sum [of "trial_start t" "trial_number t" sut rv d tm] assms(1) by simp
  with assms(2) show ?thesis
    by (subst at_trial_unfold) simp
qed

lemma at_trial_skip:
  assumes "\<And>i. i < trial_start T \<Longrightarrow> sut i = Inr (rv i) \<and> reported_duration (rv i) = Some (d i)"
    and "\<And>t. t < T \<Longrightarrow> trial_total d t < 2 / 10"
  shows "at_trial sut tm 0 = at_trial sut tm T"
  using assms
proof (induction T)
  case 0
  then show ?case by simp
next
  case (Suc T)
  have "at_trial sut tm 0 = at_trial sut tm T"
    by (rule Suc.IH) (use Suc.prems in simp_all)
  also have "\<dots> = at_trial sut tm (Suc T)"
    by (rule at_trial_below [of T sut rv d]) (use Suc.prems in simp_all)
  finally show ?case .
qed

lemma at_trial_raises:
  assumes "sut m = Inl e"
    and "\<And>i. i < m \<Longrightarrow> sut i = Inr (rv i) \<and> reported_duration (rv i) = Some (d i)"
    and "trial_start T \<le> m" and "m < trial_start (Suc T)"
  shows "at_trial sut tm T = Some (Inl e, Suc m)"
proof -
  have "timeit sut tm (trial_number T) (trial_start T) = (Inl e, Suc m)"
    by (rule timeit_raises [of sut m e "trial_start T" rv d "trial_number T" tm])
      (use assms in simp_all)
  then show ?thesis
    by (subst at_trial_unfold) simp
qed

lemma at_trial_decides:
  assumes "\<And>i. i < trial_start (Suc T) \<Longrightarrow> sut i = Inr (rv i) \<and> reported_duration (rv i) = Some (d i)"
    and "2 / 10 \<le> trial_total d T"
  shows "at_trial sut tm T = Some (Inr (trial_number T, trial_total d T), trial_start (Suc T))"
proof -
  have "timeit sut tm (trial_number T) (trial_start T) =
          (Inr (trial_total d T), trial_start (Suc T))"
    unfolding trial_total_def
    using timeit_sum [of "trial_start T" "trial_number T" sut rv d tm] assms(1) by simp
  with assms(2) show ?thesis
    by (subst at_trial_unfold) simp
qed

lemma at_trial_0: "at_trial sut tm 0 = autorange sut tm 1 [1, 2, 5] 0"
  by (simp add: at_trial_def)

lemma profiling_raises:
  assumes "sut m = Inl e"
    and "\<And>i. i < m \<Longrightarrow> sut i = Inr (rv i) \<and> reported_duration (rv i) = Some (d i)"
    and "call_is_made number rep d m"
  shows "profiling number rep sut tm 0 = Some (Inl e, Suc m)"
proof (cases number)
  case (Some n)
  with assms(3) have "m < rep * n" by (simp add: call_is_made_def)
  then have "repeat_loop sut tm rep n [] 0 = (Inl e, Suc m)"
    using repeat_loop_raises [of sut m e 0 rv d rep n tm "[]"] assms(1,2) by simp
  with Some show ?thesis by (simp add: profiling_def repeat_timer_def)
next
  case None
  with assms(3) obtain T where T: "\<And>t. t < T \<Longrightarrow> trial_total d t < 2 / 10"
    "trial_start T \<le> m"
    "m < trial_start (Suc T) \<or>
       (2 / 10 \<le> trial_total d T \<and> m < trial_start (Suc T) + rep * trial_number T)"
    by (auto simp: call_is_made_def)
  have skip: "autorange sut tm 1 [1, 2, 5] 0 = at_trial sut tm T"
    unfolding at_trial_0 [symmetric]
    by (rule at_trial_skip [of T sut rv d]) (use T assms(2) in simp_all)
  show ?thesis
  proof (cases "m < trial_start (Suc T)")
    case True
    from at_trial_raises [of sut m e rv d T tm] assms(1,2) T(2) True
    have "at_trial sut tm T = Some (Inl e, Suc m)" by simp
    with skip None show ?thesis by (simp add: profiling_def)
  next
    case False
    with T(3) have dec: "2 / 10 \<le> trial_total d T" and m: "m < trial_start (Suc T) + rep * trial_number T"
      by auto
    from False have le: "trial_start (Suc T) \<le> m" by simp
    have "at_trial sut tm T =
        Some (Inr (trial_number T, trial_total d T), trial_start (Suc T))"
      by (rule at_trial_decides [of T sut rv d]) (use assms(2) le dec in simp_all)
    moreover have "repeat_loop sut tm rep (trial_number T) [] (trial_start (Suc T)) = (Inl e, Suc m)"
      by (rule repeat_loop_raises [of sut m e "trial_start (Suc T)" rv d rep "trial_number T"])
        (use assms(1,2) le m in simp_all)
    ultimately show ?thesis
      using skip None by (simp add: profiling_def repeat_timer_def)
  qed
qed

text \<open>
  C6. Let call \<open>m\<close> of the profiled function be the first that raises, with exception
  \<open>e\<close>, the calls before it reporting durations, and let call \<open>m\<close> belong to the
  profiling (one of the \<open>repeat * number\<close> calls of the timing runs, or for
  \<open>number = None\<close> a call of a trial of \<open>autorange\<close> or of the timing runs after it).
  Then the wrapper stops at that call, prints the traceback and nothing else, and raises
  \<open>e\<close> itself to its caller: no timing result is returned, and no later call is made.
\<close>

theorem time_it_reraises:
  assumes "sut m = Inl e"
    and "\<forall>i < m. sut i = Inr (rv i) \<and> reported_duration (rv i) = Some (d i)"
    and "call_is_made number rep d m"
  shows "time_it number rep sut tm = Some (Inl e, [PrintExc e], Suc m)"
  using profiling_raises [of sut m e rv d number rep tm] assms
  by (simp add: time_it_def wrapper_def)

theorem time_it_reraises_witness:
  "time_it (Some 2) 3 (\<lambda>i. if i = 3 then Inl (OtherError ''connection lost'') else Inr (PyNum 1))
       (\<lambda>i. 0) =
     Some (Inl (OtherError ''connection lost''), [PrintExc (OtherError ''connection lost'')], 4) \<and>
   time_it None 5
       (\<lambda>i. if i = 1 then Inl (OtherError ''connection lost'') else Inr (PyNum (1 / 10)))
       (\<lambda>i. 0) =
     Some (Inl (OtherError ''connection lost''), [PrintExc (OtherError ''connection lost'')], 2)"
proof -
  have made: "call_is_made None 5 (\<lambda>i. 1 / 10) 1"
    unfolding call_is_made_def
    by (simp, rule bexI [of _ 1]) (simp_all add: trial_total_def trial_number_def)
  have given: "call_is_made (Some 2) 3 (\<lambda>i. 1) 3"
    by (simp add: call_is_made_def)
  show ?thesis
    using time_it_reraises
        [of "\<lambda>i. if i = 3 then Inl (OtherError ''connection lost'') else Inr (PyNum 1)" 3
            "OtherError ''connection lost''" "\<lambda>i. PyNum 1" "\<lambda>i. 1" "Some 2" 3 "\<lambda>i. 0"]
      time_it_reraises
        [of "\<lambda>i. if i = 1 then Inl (OtherError ''connection lost'') else Inr (PyNum (1 / 10))" 1
            "OtherError ''connection lost''" "\<lambda>i. PyNum (1 / 10)" "\<lambda>i. 1 / 10" None 5 "\<lambda>i. 0"]
      made given
    by simp
qed

section \<open>Properties of the incremental writers\<close>

subsection \<open>The HDF5 writer appends\<close>

lemma broadcast_to_same_length: "broadcast_to (Array xs) (length xs) = Some xs"
  by (induction "Array xs" "length xs" rule: broadcast_to.induct) auto

lemma slice_bounds_append: "slice_bounds n (n + p) (n + p) = (n, n + p)"
  by (simp add: slice_bounds_def)

lemma upt_4: "[0..<4] = [0, 1, 2, 3]"
  by (simp add: eval_nat_numeral)

lemma hdf5_body_appends:
  assumes "length r0 = n" "length r1 = n" "length r2 = n" "length r3 = n"
    and "length phas_vals = length magn_vals"
  shows "hdf5_body \<lparr>ds_shape = (4, n), ds_maxshape = (4, None), ds_rows = [r0, r1, r2, r3]\<rparr>
           (s1_val, s2_val, magn_vals, phas_vals) =
         (Inr (), \<lparr>ds_shape = (4, n + length magn_vals), ds_maxshape = (4, None),
                   ds_rows = [r0 @ replicate (length magn_vals) s1_val,
                              r1 @ replicate (length magn_vals) s2_val,
                              r2 @ magn_vals, r3 @ phas_vals]\<rparr>)"
proof -
  have b: "broadcast_to (Array phas_vals) (length magn_vals) = Some phas_vals"
    using broadcast_to_same_length [of phas_vals] assms(5) by simp
  show ?thesis
    using assms
    by (simp add: hdf5_body_def h5_resize_def h5_setitem_def slice_bounds_append upt_4 b
        broadcast_to_same_length Let_def)
qed

lemma hdf5_loop_appends:
  assumes "equal_lengths gen"
    and "length r0 = n" "length r1 = n" "length r2 = n" "length r3 = n"
  shows "hdf5_loop gen \<lparr>ds_shape = (4, n), ds_maxshape = (4, None), ds_rows = [r0, r1, r2, r3]\<rparr> =
         (Inr (), \<lparr>ds_shape = (4, n + n_points gen), ds_maxshape = (4, None),
                   ds_rows = map2 (@) [r0, r1, r2, r3] (expected_rows gen)\<rparr>)"
  using assms
proof (induction gen arbitrary: n r0 r1 r2 r3)
  case Nil
  then show ?case by (simp add: n_points_def expected_rows_def)
next
  case (Cons item gen)
  obtain s1_val s2_val magn_vals phas_vals where item: "item = (s1_val, s2_val, magn_vals, phas_vals)"
    by (cases item)
  from Cons.prems(1) item have len: "length phas_vals = length magn_vals" and rest: "equal_lengths gen"
    by (simp_all add: equal_lengths_def)
  have step: "hdf5_body \<lparr>ds_shape = (4, n), ds_maxshape = (4, None), ds_rows = [r0, r1, r2, r3]\<rparr> item =
         (Inr (), \<lparr>ds_shape = (4, n + length magn_vals), ds_maxshape = (4, None),
                   ds_rows = [r0 @ replicate (length magn_vals) s1_val,
                              r1 @ replicate (length magn_vals) s2_val,
                              r2 @ magn_vals, r3 @ phas_vals]\<rparr>)"
    unfolding item using Cons.prems(2-5) len by (rule hdf5_body_appends)
  have "hdf5_loop gen \<lparr>ds_shape = (4, n + length magn_vals), ds_maxshape = (4, None),
                   ds_rows = [r0 @ replicate (length magn_vals) s1_val,
                              r1 @ replicate (length magn_vals) s2_val,
                              r2 @ magn_vals, r3 @ phas_vals]\<rparr> =
        (Inr (), \<lparr>ds_shape = (4, n + length magn_vals + n_points gen), ds_maxshape = (4, None),
                   ds_rows = map2 (@) [r0 @ replicate (length magn_vals) s1_val,
                              r1 @ replicate (length magn_vals) s2_val,
                              r2 @ magn_vals, r3 @ phas_vals] (expected_rows gen)\<rparr>)"
    by (rule Cons.IH) (use rest Cons.prems len in simp_all)
  with step show ?case
    by (simp add: item n_points_def expected_rows_def add.assoc)
qed

lemma save_to_hdf5_stores:
  assumes "creatable w filename" and "equal_lengths gen"
  shows "save_to_hdf5 gen filename w =
           (Inr PyNone,
            w\<lparr>files := (files w)(filename \<mapsto>
                 Hdf5File \<lparr>ds_shape = (4, n_points gen), ds_maxshape = (4, None),
                            ds_rows = expected_rows gen\<rparr>)\<rparr>)"
proof -
  have "hdf5_loop gen (create_dataset (4, 0) (4, None)) =
          (Inr (), \<lparr>ds_shape = (4, n_points gen), ds_maxshape = (4, None),
                    ds_rows = expected_rows gen\<rparr>)"
    using hdf5_loop_appends [OF assms(2), of "[]" 0 "[]" "[]" "[]"]
    by (simp add: create_dataset_def expected_rows_def eval_nat_numeral)
  with assms(1) show ?thesis
    by (simp add: save_to_hdf5_def)
qed


lemma save_to_hdf5_handles: "handles (snd (save_to_hdf5 gen filename w)) = handles w"
  by (simp add: save_to_hdf5_def split: prod.splits sum.splits)


text \<open>
  On every input, also one on which an assignment raises, the dataset keeps its number of
  rows and never loses columns.
\<close>

lemma h5_setitem_fields:
  "h5_setitem ds i lo hi v = Inr ds' \<Longrightarrow>
     ds_shape ds' = ds_shape ds \<and> ds_maxshape ds' = ds_maxshape ds"
  by (auto simp: h5_setitem_def Let_def split: prod.splits if_splits option.splits)

lemma h5_resize_fields:
  "h5_resize ds shp = Inr ds' \<Longrightarrow> ds_shape ds' = shp \<and> ds_maxshape ds' = ds_maxshape ds"
  by (auto simp: h5_resize_def Let_def split: prod.splits if_splits)

lemma hdf5_body_fields:
  assumes "hdf5_body ds item = (r, ds')"
  shows "ds_maxshape ds' = ds_maxshape ds \<and> fst (ds_shape ds') = fst (ds_shape ds)
         \<and> (ds_shape ds' = ds_shape ds \<or>
            snd (ds_shape ds') = snd (ds_shape ds) + length (fst (snd (snd item))))"
proof -
  obtain s1_val s2_val magn_vals phas_vals where item: "item = (s1_val, s2_val, magn_vals, phas_vals)"
    by (cases item)
  show ?thesis
    using assms
    by (auto simp: hdf5_body_def item Let_def split: sum.splits prod.splits
        dest!: h5_setitem_fields h5_resize_fields)
qed

lemma hdf5_loop_fields:
  "hdf5_loop gen ds = (r, ds') \<Longrightarrow>
     fst (ds_shape ds') = fst (ds_shape ds) \<and> snd (ds_shape ds) \<le> snd (ds_shape ds')"
proof (induction gen arbitrary: ds)
  case Nil
  then show ?case by simp
next
  case (Cons item gen)
  obtain r1 ds1 where body: "hdf5_body ds item = (r1, ds1)" by (cases "hdf5_body ds item")
  note f = hdf5_body_fields [OF body]
  show ?case
  proof (cases r1)
    case (Inl e)
    with body Cons.prems f show ?thesis by auto
  next
    case (Inr u)
    with body Cons.prems have "hdf5_loop gen ds1 = (r, ds')" by simp
    from Cons.IH [OF this] f show ?thesis by auto
  qed
qed

subsection \<open>The NumPy writer: shape, file and handle\<close>

lemma nd_setitem_fields:
  "nd_setitem a i lo hi v = Inr a' \<Longrightarrow>
     nd_shape a' = nd_shape a \<and> nd_owndata a' = nd_owndata a \<and> nd_mmap a' = nd_mmap a"
  by (auto simp: nd_setitem_def Let_def split: prod.splits if_splits option.splits)

lemma nd_resize_fields:
  "nd_resize a shp = Inr a' \<Longrightarrow>
     nd_shape a' = shp \<and> nd_owndata a' = nd_owndata a \<and> nd_mmap a' = nd_mmap a"
  by (auto simp: nd_resize_def Let_def split: prod.splits if_splits)

lemma npy_body_fields:
  assumes "npy_body a item = (r, a')"
  shows "nd_owndata a' = nd_owndata a \<and> nd_mmap a' = nd_mmap a \<and> fst (nd_shape a') = fst (nd_shape a)
         \<and> (nd_shape a' = nd_shape a \<or>
            snd (nd_shape a') = snd (nd_shape a) + length (fst (snd (snd item))))"
proof -
  obtain s1_val s2_val magn_vals phas_vals where item: "item = (s1_val, s2_val, magn_vals, phas_vals)"
    by (cases item)
  show ?thesis
    using assms
    by (auto simp: npy_body_def item Let_def split: sum.splits prod.splits
        dest!: nd_setitem_fields nd_resize_fields)
qed

lemma npy_loop_fields:
  "npy_loop gen a = (r, a') \<Longrightarrow>
     nd_owndata a' = nd_owndata a \<and> nd_mmap a' = nd_mmap a \<and> fst (nd_shape a') = fst (nd_shape a)
     \<and> snd (nd_shape a) \<le> snd (nd_shape a')"
proof (induction gen arbitrary: a)
  case Nil
  then show ?case by simp
next
  case (Cons item gen)
  obtain r1 a1 where body: "npy_body a item = (r1, a1)" by (cases "npy_body a item")
  note f = npy_body_fields [OF body]
  show ?case
  proof (cases r1)
    case (Inl e)
    with body Cons.prems f show ?thesis by auto
  next
    case (Inr u)
    with body Cons.prems have "npy_loop gen a1 = (r, a')" by simp
    from Cons.IH [OF this] f show ?thesis by auto
  qed
qed





lemma npy_destination_unmapped:
  "npy_destination gen filename = (r, a) \<Longrightarrow> nd_mmap a = None"
  using npy_loop_fields [of gen "require_owndata (memmap_array filename (4, 0))" r a]
  by (simp add: npy_destination_def require_owndata_def memmap_array_def)

lemma save_to_npy_not_creatable:
  "\<not> creatable w filename \<Longrightarrow> save_to_npy gen filename w = (Inl OSError, w)"
  by (simp add: save_to_npy_def open_memmap_def)

text \<open>
  When the file can be created, \<open>save_to_npy\<close> leaves the header it wrote and no
  element, leaves the handles as they were, and returns or raises as its loop does.
\<close>

lemma save_to_npy_creatable:
  assumes "creatable w filename"
  shows "save_to_npy gen filename w =
           (case fst (npy_destination gen filename) of Inl e \<Rightarrow> Inl e | Inr u \<Rightarrow> Inr PyNone,
            w\<lparr>files := (files w)(filename \<mapsto> NpyFile (4, 0) [])\<rparr>)"
proof -
  obtain r a where loop: "npy_destination gen filename = (r, a)"
    by (cases "npy_destination gen filename")
  note un = npy_destination_unmapped [OF loop]
  from loop have "npy_loop gen (require_owndata (memmap_array filename (4, 0))) = (r, a)"
    by (simp add: npy_destination_def)
  with un loop assms show ?thesis
    by (cases r) (simp_all add: save_to_npy_def open_memmap_def require_owndata_def
        memmap_array_def release_def write_through_def Let_def)
qed

lemma save_to_npy_handles: "handles (snd (save_to_npy gen filename w)) = handles w"
  by (cases "creatable w filename") (simp_all add: save_to_npy_creatable save_to_npy_not_creatable)

lemma save_to_npy_file:
  "creatable w filename \<Longrightarrow>
     files (snd (save_to_npy gen filename w)) = (files w)(filename \<mapsto> NpyFile (4, 0) [])"
  by (simp add: save_to_npy_creatable)



section \<open>The data generator\<close>

lemma s2_loop_yields:
  "s2_loop rnd n s1_val s2_vals k = (ys, k') \<Longrightarrow>
     map settings ys = map (\<lambda>s2_val. (of_nat s1_val, of_nat s2_val)) s2_vals \<and>
     list_all (\<lambda>item. n_vals item = (n * n, n * n)) ys"
proof (induction s2_vals arbitrary: k ys k')
  case Nil
  then show ?case by simp
next
  case (Cons s2_val s2_vals)
  obtain rest k3 where rest: "s2_loop rnd n s1_val s2_vals (k + n + n) = (rest, k3)"
    by (cases "s2_loop rnd n s1_val s2_vals (k + n + n)")
  from Cons.IH [OF rest] rest Cons.prems show ?case
    by (auto simp: rand_def meshgrid_def reshape_flat_def settings_def n_vals_def
        length_concat sum_list_triv comp_def)
qed

lemma s1_loop_yields:
  "s1_loop rnd n s1_vals k = (ys, k') \<Longrightarrow>
     map settings ys =
       map (\<lambda>(s1_val, s2_val). (of_nat s1_val, of_nat s2_val)) (List.product s1_vals [0..<n]) \<and>
     list_all (\<lambda>item. n_vals item = (n * n, n * n)) ys"
proof (induction s1_vals arbitrary: k ys k')
  case Nil
  then show ?case by simp
next
  case (Cons s1_val s1_vals)
  obtain ys1 k1 where inner: "s2_loop rnd n s1_val [0..<n] k = (ys1, k1)"
    by (cases "s2_loop rnd n s1_val [0..<n] k")
  obtain rest k2 where rest: "s1_loop rnd n s1_vals k1 = (rest, k2)"
    by (cases "s1_loop rnd n s1_vals k1")
  from s2_loop_yields [OF inner] Cons.IH [OF rest] inner rest Cons.prems show ?case
    by (auto simp: comp_def)
qed

lemma n_points_uniform:
  "list_all (\<lambda>item. n_vals item = (c, c)) gen \<Longrightarrow> n_points gen = length gen * c \<and> equal_lengths gen"
  by (induction gen) (auto simp: n_points_def equal_lengths_def n_vals_def)

lemma producer_yields:
  "map settings (fst (make_data_producer n rnd k)) =
       map (\<lambda>(s1_val, s2_val). (of_nat s1_val, of_nat s2_val)) (List.product [0..<n] [0..<n]) \<and>
   list_all (\<lambda>item. n_vals item = (n * n, n * n)) (fst (make_data_producer n rnd k))"
  using s1_loop_yields [of rnd n "[0..<n]" k]
  by (cases "s1_loop rnd n [0..<n] k") (simp add: make_data_producer_def produce_measurement_data_def)

lemma producer_length: "length (fst (make_data_producer n rnd k)) = n * n"
proof -
  have "length (map settings (fst (make_data_producer n rnd k))) = length (List.product [0..<n] [0..<n])"
    using producer_yields [of n rnd k] by simp
  then show ?thesis by simp
qed

lemma producer_points:
  "n_points (fst (make_data_producer n rnd k)) = n ^ 4 \<and>
   equal_lengths (fst (make_data_producer n rnd k))"
proof -
  from producer_yields [of n rnd k]
  have "list_all (\<lambda>item. n_vals item = (n * n, n * n)) (fst (make_data_producer n rnd k))"
    by simp
  from n_points_uniform [OF this] producer_length [of n rnd k] show ?thesis
    by (simp add: power4_eq_xxxx)
qed

text \<open>
  The generator of \<open>make_data_producer n\<close> yields \<open>n\<^sup>2\<close> tuples, one for each pair
  \<open>(s1_val, s2_val)\<close> of \<open>range(n) \<times> range(n)\<close> in lexicographic order, each with
  \<open>n\<^sup>2\<close> values of \<open>magn_vals\<close> and of \<open>phas_vals\<close>, whatever the random source draws.
\<close>

lemma producer_tuples:
  "length (fst (make_data_producer n rnd k)) = n ^ 2 \<and>
   map settings (fst (make_data_producer n rnd k)) =
     map (\<lambda>(s1_val, s2_val). (of_nat s1_val, of_nat s2_val)) (List.product [0..<n] [0..<n]) \<and>
   list_all (\<lambda>item. n_vals item = (n ^ 2, n ^ 2)) (fst (make_data_producer n rnd k))"
  using producer_yields [of n rnd k] producer_length [of n rnd k]
  by (simp add: power2_eq_square)

text \<open>
  On these tuples \<open>save_to_hdf5\<close> stores 4 rows of \<open>n\<^sup>4\<close> points, the rows it is meant
  to store, and \<open>save_to_npy\<close> stores 4 rows of no point, in every file that can be
  created.
\<close>

lemma save_to_hdf5_producer:
  assumes "creatable w filename"
  shows "save_to_hdf5 (fst (make_data_producer n rnd k)) filename w =
           (Inr PyNone,
            w\<lparr>files := (files w)(filename \<mapsto>
                 Hdf5File \<lparr>ds_shape = (4, n ^ 4), ds_maxshape = (4, None),
                            ds_rows = expected_rows (fst (make_data_producer n rnd k))\<rparr>)\<rparr>)"
  using save_to_hdf5_stores [OF assms, of "fst (make_data_producer n rnd k)"]
    producer_points [of n rnd k] by simp

lemma expected_rows_lengths:
  "equal_lengths gen \<Longrightarrow> map length (expected_rows gen) = replicate 4 (n_points gen)"
proof (induction gen)
  case Nil
  then show ?case by (simp add: expected_rows_def n_points_def eval_nat_numeral)
next
  case (Cons item gen)
  then show ?case
    by (cases item) (auto simp: expected_rows_def n_points_def equal_lengths_def eval_nat_numeral)
qed

lemma save_to_npy_producer:
  assumes "creatable w filename"
  shows "numpy_load (snd (save_to_npy (fst (make_data_producer n rnd k)) filename w)) filename =
           Some [[], [], [], []]"
  using save_to_npy_file [OF assms, of "fst (make_data_producer n rnd k)"]
  by (simp add: numpy_load_def rows_of_def upt_4)

text \<open>
  C9 (the generator yields \<open>n\<^sup>2\<close> tuples of \<open>n\<^sup>2\<close> values, and so a run of either
  writer appends \<open>n\<^sup>4\<close> points per column). For \<open>n = 2\<close> and a random source that
  draws 0, 1, 2, ..., the generator yields the four tuples below, of four values each, and
  \<open>save_to_hdf5\<close> stores their 16 points per row; the file of \<open>save_to_npy\<close> holds no
  point, where the claim has 16 per row.
\<close>

theorem npy_file_misses_generated_points:
  "fst (make_data_producer 2 (\<lambda>i. of_nat i) 0) =
     [(0, 0, [0, 1, 0, 1], [2, 2, 3, 3]), (0, 1, [4, 5, 4, 5], [6, 6, 7, 7]),
      (1, 0, [8, 9, 8, 9], [10, 10, 11, 11]), (1, 1, [12, 13, 12, 13], [14, 14, 15, 15])] \<and>
   hdf5_load (snd (save_to_hdf5 (fst (make_data_producer 2 (\<lambda>i. of_nat i) 0)) ''results.h5''
       \<lparr>files = Map.empty, handles = [], can_create = (\<lambda>f. True)\<rparr>)) ''results.h5'' =
     Some [[0, 0, 0, 0, 0, 0, 0, 0, 1, 1, 1, 1, 1, 1, 1, 1],
           [0, 0, 0, 0, 1, 1, 1, 1, 0, 0, 0, 0, 1, 1, 1, 1],
           [0, 1, 0, 1, 4, 5, 4, 5, 8, 9, 8, 9, 12, 13, 12, 13],
           [2, 2, 3, 3, 6, 6, 7, 7, 10, 10, 11, 11, 14, 14, 15, 15]] \<and>
   numpy_load (snd (save_to_npy (fst (make_data_producer 2 (\<lambda>i. of_nat i) 0)) ''results.npy''
       \<lparr>files = Map.empty, handles = [], can_create = (\<lambda>f. True)\<rparr>)) ''results.npy'' =
     Some [[], [], [], []]"
proof -
  have gen: "fst (make_data_producer 2 (\<lambda>i. of_nat i) 0) =
     [(0, 0, [0, 1, 0, 1], [2, 2, 3, 3]), (0, 1, [4, 5, 4, 5], [6, 6, 7, 7]),
      (1, 0, [8, 9, 8, 9], [10, 10, 11, 11]), (1, 1, [12, 13, 12, 13], [14, 14, 15, 15])]"
    by (simp add: make_data_producer_def produce_measurement_data_def rand_def meshgrid_def
        reshape_flat_def upt_rec [of _ "numeral _"] eval_nat_numeral)
  have c: "creatable \<lparr>files = Map.empty, handles = [], can_create = (\<lambda>f. True)\<rparr> ''results.h5''"
    "creatable \<lparr>files = Map.empty, handles = [], can_create = (\<lambda>f. True)\<rparr> ''results.npy''"
    by (simp_all add: creatable_def)
  have h: "hdf5_load (snd (save_to_hdf5 (fst (make_data_producer 2 (\<lambda>i. of_nat i) 0)) ''results.h5''
       \<lparr>files = Map.empty, handles = [], can_create = (\<lambda>f. True)\<rparr>)) ''results.h5'' =
     Some (expected_rows (fst (make_data_producer 2 (\<lambda>i. of_nat i) 0)))"
    by (simp add: save_to_hdf5_producer [OF c(1)] hdf5_load_def)
  have e: "expected_rows (fst (make_data_producer 2 (\<lambda>i. of_nat i) 0)) =
     [[0, 0, 0, 0, 0, 0, 0, 0, 1, 1, 1, 1, 1, 1, 1, 1],
      [0, 0, 0, 0, 1, 1, 1, 1, 0, 0, 0, 0, 1, 1, 1, 1],
      [0, 1, 0, 1, 4, 5, 4, 5, 8, 9, 8, 9, 12, 13, 12, 13],
      [2, 2, 3, 3, 6, 6, 7, 7, 10, 10, 11, 11, 14, 14, 15, 15]]"
    unfolding gen by (simp add: expected_rows_def eval_nat_numeral)
  from gen h e save_to_npy_producer [OF c(2), of 2 "\<lambda>i. of_nat i" 0] show ?thesis
    by (simp only: simp_thms)
qed

section \<open>The writers on concrete inputs, and what they return\<close>

lemmas writer_defs =
  save_to_hdf5_def hdf5_body_def h5_resize_def h5_setitem_def create_dataset_def
  save_to_npy_def npy_destination_def npy_body_def nd_resize_def nd_setitem_def
  open_memmap_def require_owndata_def release_def write_through_def
  memmap_array_def creatable_def
  slice_bounds_def numpy_load_def hdf5_load_def nd_rows_def rows_of_def
  expected_rows_def equal_lengths_def Let_def upt_4

text \<open>
  C2 (the two writers, on sequences of tuples whose \<open>magn_vals\<close> and \<open>phas_vals\<close>
  have equal lengths, were to store the same array of 4 rows: the repeated \<open>s1_val\<close>,
  the repeated \<open>s2_val\<close>, the \<open>magn_vals\<close> and the \<open>phas_vals\<close>). On the two
  tuples \<open>(0, 1, [2], [3])\<close> and \<open>(4, 5, [6], [7])\<close> the HDF5 file holds that array,
  while the \<open>.npy\<close> file holds an array of 4 rows of no elements, and the array that
  \<open>save_to_npy\<close> filled in memory has the same shape as the HDF5 dataset but other
  values: \<open>ndarray.resize\<close> moved what the first iteration had written.
\<close>

theorem writers_disagree:
  "equal_lengths [(0, 1, [2], [3]), (4, 5, [6], [7])] \<and>
   hdf5_load (snd (save_to_hdf5 [(0, 1, [2], [3]), (4, 5, [6], [7])] ''results.h5''
       \<lparr>files = Map.empty, handles = [], can_create = (\<lambda>f. True)\<rparr>)) ''results.h5'' = Some [[0, 4], [1, 5], [2, 6], [3, 7]] \<and>
   numpy_load (snd (save_to_npy [(0, 1, [2], [3]), (4, 5, [6], [7])] ''results.npy''
       \<lparr>files = Map.empty, handles = [], can_create = (\<lambda>f. True)\<rparr>)) ''results.npy'' = Some [[], [], [], []] \<and>
   nd_rows (snd (npy_destination [(0, 1, [2], [3]), (4, 5, [6], [7])] ''results.npy'')) =
     [[0, 4], [2, 5], [0, 6], [0, 7]]"
  by (simp add: writer_defs)

text \<open>
  C3 (the destination array always has 4 rows, grows by \<open>len(magn_vals)\<close> columns at
  each iteration, and keeps what earlier iterations wrote). The shapes are as claimed for
  both writers and the HDF5 dataset keeps its earlier values (lemmas
  \<open>hdf5_loop_appends\<close>, \<open>hdf5_loop_fields\<close>, \<open>npy_loop_shape\<close> and
  \<open>npy_loop_fields\<close>), but in \<open>save_to_npy\<close> the second
  iteration changes the elements \<open>[1, 0]\<close>, \<open>[2, 0]\<close> and \<open>[3, 0]\<close> that the first
  iteration had set to 2, 3 and 4.
\<close>

theorem npy_resize_moves_earlier_values:
  "nd_rows (snd (npy_destination [(1, 2, [3], [4])] ''results.npy'')) = [[1], [2], [3], [4]] \<and>
   nd_rows (snd (npy_destination [(1, 2, [3], [4]), (5, 6, [7], [8])] ''results.npy'')) =
     [[1, 5], [3, 6], [0, 7], [0, 8]] \<and>
   nd_shape (snd (npy_destination [(1, 2, [3], [4]), (5, 6, [7], [8])] ''results.npy'')) = (4, 2)"
  by (simp add: writer_defs)

text \<open>
  C5 (after \<open>save_to_npy\<close> returns, the file was to hold the 4 rows of all generated
  points). The array that \<open>numpy.require\<close> returns is a copy in memory, so nothing
  written in the loop reaches the file: for the single tuple \<open>(0, 1, [2, 3], [4, 5])\<close>
  the function returns \<open>None\<close> and leaves a file of 4 rows of no elements, where
  \<open>[[0, 0], [1, 1], [2, 3], [4, 5]]\<close> was to be stored. Lemma \<open>save_to_npy_file\<close>
  shows the same for every input and every file that can be created.
\<close>

theorem npy_file_left_empty:
  "fst (save_to_npy [(0, 1, [2, 3], [4, 5])] ''results.npy'' \<lparr>files = Map.empty, handles = [], can_create = (\<lambda>f. True)\<rparr>)
     = Inr PyNone \<and>
   numpy_load (snd (save_to_npy [(0, 1, [2, 3], [4, 5])] ''results.npy''
       \<lparr>files = Map.empty, handles = [], can_create = (\<lambda>f. True)\<rparr>)) ''results.npy'' = Some [[], [], [], []] \<and>
   expected_rows [(0, 1, [2, 3], [4, 5])] = [[0, 0], [1, 1], [2, 3], [4, 5]]"
  by (simp add: writer_defs)







section \<open>The instrument benchmarks: clocks and connections\<close>

lemma volt_loop_log:
  "volt_loop dmm n l = l\<lparr>log := log l @ replicate n (Command dmm ''volt'')\<rparr>"
proof (induction n arbitrary: l)
  case 0
  then show ?case by simp
next
  case (Suc n)
  then show ?case
    by (simp add: command_def replicate_app_Cons_same)
qed

lemma read_values_log:
  "read_values dmm N wall l =
     l\<lparr>time_reads := time_reads l + 2,
       log := log l @ [Clock TimeTime] @ replicate N (Command dmm ''volt'') @
              [Clock TimeTime, Print (ReadIn N dmm (wall (Suc (time_reads l)) - wall (time_reads l)))]\<rparr>"
  by (simp add: read_values_def time_time_def print_def volt_loop_log)

lemma timed_sweep_log:
  "timed_sweep dmm points wall l =
     l\<lparr>time_reads := time_reads l + 2,
       log := log l @ [Clock TimeTime, Command dmm ''loop.run'', Clock TimeTime,
                       Print (SweepIn points dmm (wall (Suc (time_reads l)) - wall (time_reads l)))]\<rparr>"
  by (simp add: timed_sweep_def time_time_def print_def command_def)

lemma displays_on_body_fields:
  "connections (displays_on_body wall N l) = connections l \<and>
   perf_reads (displays_on_body wall N l) = perf_reads l"
  by (simp add: displays_on_body_def read_values_log print_def)

lemma displays_off_body_fields:
  "connections (displays_off_body wall N l) = connections l \<and>
   perf_reads (displays_off_body wall N l) = perf_reads l"
  by (simp add: displays_off_body_def read_values_log print_def command_def Let_def)

lemma displays_on_cell_fields:
  "connections (displays_on_cell wall l) = connections l \<and>
   perf_reads (displays_on_cell wall l) = perf_reads l"
  by (simp add: displays_on_cell_def displays_on_body_fields print_def command_def)

lemma displays_off_cell_fields:
  "connections (displays_off_cell wall l) = connections l \<and>
   perf_reads (displays_off_cell wall l) = perf_reads l"
  by (simp add: displays_off_cell_def displays_off_body_fields print_def)

lemma sweep_1d_cell_fields:
  "connections (sweep_1d_cell wall l) = connections l \<and>
   perf_reads (sweep_1d_cell wall l) = perf_reads l"
  by (simp add: sweep_1d_cell_def timed_sweep_log command_def Let_def)

lemma sweep_2d_cell_fields:
  "connections (sweep_2d_cell wall l) = connections l \<and>
   perf_reads (sweep_2d_cell wall l) = perf_reads l"
  by (simp add: sweep_2d_cell_def timed_sweep_log command_def Let_def)

lemma setup_cell_fields:
  "connections (setup_cell l) = connections l \<and> perf_reads (setup_cell l) = perf_reads l"
  by (simp add: setup_cell_def command_def)

lemma dmm_notebook_connections: "connections (dmm_notebook wall l) = connections l"
  by (simp add: dmm_notebook_def close_cell_def close_def connect_cell_def connect_def
      sweep_1d_cell_fields sweep_2d_cell_fields displays_off_cell_fields displays_on_cell_fields setup_cell_fields)

lemma seqx_run_eq:
  "seqx_run perf no_of_reps n (ts, l) =
     (ts[n := perf (Suc (perf_reads l)) - perf (perf_reads l)],
      l\<lparr>perf_reads := perf_reads l + 2, log := log l @ upload_events no_of_reps n\<rparr>)"
  by (simp add: seqx_run_def time_perf_counter_def command_def print_def upload_events_def)

lemma seqx_runs:
  assumes "m \<le> no_of_reps" and "length ts = no_of_reps"
  shows "fold (seqx_run perf no_of_reps) [0..<m] (ts, l) =
           (map (\<lambda>n. perf (perf_reads l + 2 * n + 1) - perf (perf_reads l + 2 * n)) [0..<m] @
              drop m ts,
            l\<lparr>perf_reads := perf_reads l + 2 * m,
              log := log l @ concat (map (upload_events no_of_reps) [0..<m])\<rparr>)"
  using assms(1)
proof (induction m)
  case 0
  then show ?case by simp
next
  case (Suc m)
  then have IH: "fold (seqx_run perf no_of_reps) [0..<m] (ts, l) =
           (map (\<lambda>n. perf (perf_reads l + 2 * n + 1) - perf (perf_reads l + 2 * n)) [0..<m] @
              drop m ts,
            l\<lparr>perf_reads := perf_reads l + 2 * m,
              log := log l @ concat (map (upload_events no_of_reps) [0..<m])\<rparr>)"
    by simp
  have "m < length ts" using Suc.prems assms(2) by simp
  then have upd: "(xs @ drop m ts)[m := v] = xs @ [v] @ drop (Suc m) ts" if "length xs = m" for xs v
    using that by (simp add: list_update_append upd_conv_take_nth_drop)
  show ?case
    by (simp add: IH seqx_run_eq upd)
qed

lemma benchmark_seqx_state:
  "benchmark_seqx no_of_reps perf l =
     (map (\<lambda>n. perf (perf_reads l + 2 * n + 1) - perf (perf_reads l + 2 * n)) [0..<no_of_reps],
      l\<lparr>perf_reads := perf_reads l + 2 * no_of_reps,
        log := log l @ [Command ''awg'' ''clearSequenceList'', Command ''awg'' ''clearWaveformList''] @
               concat (map (upload_events no_of_reps) [0..<no_of_reps])\<rparr>)"
  using seqx_runs [of no_of_reps no_of_reps "replicate no_of_reps 0" perf
      "command ''awg'' ''clearWaveformList'' (command ''awg'' ''clearSequenceList'' l)"]
  by (simp add: benchmark_seqx_def command_def)

lemma awg_notebook_connections: "connections (awg_notebook perf l) = connections l"
  by (simp add: awg_notebook_def awg_close_cell_def benchmark_cell_def awg_upload_cell_def
      awg_connect_cell_def close_def connect_def command_def print_def benchmark_seqx_state)

text \<open>
  C7. Whatever the generator yields, also when the loop raises, \<open>save_to_hdf5\<close> and
  \<open>save_to_npy\<close> leave the open file handles as they found them: the file each of them
  opened is closed when it returns or raises. The multimeter notebook holds its three
  connections (Keysight, Agilent, QDac) while its cells run and none after its last cell;
  the waveform notebook likewise closes its connection.
\<close>

theorem handles_and_connections_closed:
  "handles (snd (save_to_hdf5 gen filename w)) = handles w \<and>
   handles (snd (save_to_npy gen filename w)) = handles w \<and>
   connections (setup_cell (connect_cell \<lparr>connections = [], time_reads = 0, perf_reads = 0, log = []\<rparr>))
     = [''qdac'', ''Agilent'', ''Keysight''] \<and>
   connections (dmm_notebook wall \<lparr>connections = [], time_reads = 0, perf_reads = 0, log = []\<rparr>) = [] \<and>
   connections (awg_notebook perf \<lparr>connections = [], time_reads = 0, perf_reads = 0, log = []\<rparr>) = []"
  using save_to_hdf5_handles [of gen filename w] save_to_npy_handles [of gen filename w]
    dmm_notebook_connections [of wall "\<lparr>connections = [], time_reads = 0, perf_reads = 0, log = []\<rparr>"]
    awg_notebook_connections [of perf "\<lparr>connections = [], time_reads = 0, perf_reads = 0, log = []\<rparr>"]
  by (simp add: setup_cell_fields connect_cell_def connect_def)




end
